theory Spec2Isabelle
  imports
    Main
    "HOL-Library.Word"
    "HOL-Library.Char_ord"
    "HOL-Library.List_Lexorder"
    "HOL-Library.Product_Lexorder"
    "HOL-Library.Log_Nat"
begin

unbundle bit_operations_syntax

section \<open>The relational store\<close>

text \<open>
  Every handler of the repository runs SQL statements against one PostgreSQL database.
  The tables are lists of rows, with the columns the handlers read or write
  (migrations 006, 007 and the stream access code migration). A \<open>DATE\<close> is the day
  number PostgreSQL stores, a \<open>TIMESTAMP\<close> is a number of time units; a nullable
  column is an \<open>option\<close>.
\<close>

type_synonym date = int
type_synonym timestamp = int

record member =
  m_id :: string
  m_first_name :: string
  m_last_name :: string
  m_phone :: "string option"

record att_row =
  att_date :: date
  att_service_type :: string
  att_member_id :: string
  att_present :: bool
  att_checked_in_at :: timestamp

record checkin =
  ck_id :: nat
  ck_name :: string
  ck_phone :: string
  ck_reason :: string
  ck_prayer_request :: "string option"
  ck_service_date :: date
  ck_livestream_sent :: bool
  ck_livestream_sent_at :: "timestamp option"
  ck_created_at :: timestamp

record vimeo_row =
  vp_video_id :: string
  vp_password :: string
  vp_video_url :: "string option"
  vp_active :: bool
  vp_rotation_type :: string
  vp_created_at :: timestamp

record code_row =
  sc_id :: nat
  sc_code :: string
  sc_member_name :: string
  sc_phone :: "string option"
  sc_absentee_checkin_id :: "nat option"
  sc_expires_at :: timestamp
  sc_first_used_at :: "timestamp option"
  sc_last_used_at :: "timestamp option"
  sc_use_count :: int
  sc_revoked :: bool

record schedule_row =
  sch_enabled :: bool
  sch_last_run :: "timestamp option"

record db =
  members :: "member list"
  attendance :: "att_row list"
  absentee_checkins :: "checkin list"
  vimeo_passwords :: "vimeo_row list"
  stream_access_codes :: "code_row list"
  password_rotation_schedule :: "schedule_row list"

text \<open>
  A statement either returns or raises. \<open>Unique_violation\<close> is SQLSTATE 23505,
  \<open>Foreign_key_violation\<close> 23503, \<open>Cardinality_violation\<close> 21000 (an
  \<open>ON CONFLICT DO UPDATE\<close> that would touch one row twice), \<open>Invalid_datetime\<close>
  22007, \<open>Numeric_out_of_range\<close> 22003. \<open>Other_error\<close> stands for every failure
  the model does not compute (a lost connection, a value too long for its column, a
  trigger that raises); the handlers receive it through their \<open>fails\<close> parameter, which
  says for each statement whether it raises that way.
\<close>

datatype sql_error =
    Unique_violation
  | Foreign_key_violation
  | Cardinality_violation
  | Invalid_datetime
  | Numeric_out_of_range
  | Other_error

text \<open>
  A client connection: the state every reader sees (\<open>committed\<close>) and, inside a
  transaction, the private copy the statements of the transaction work on.
  Outside a transaction a statement commits by itself.
\<close>

record session =
  committed :: db
  working :: "db option"

definition current :: "session \<Rightarrow> db" where
  "current s = (case working s of None \<Rightarrow> committed s | Some w \<Rightarrow> w)"

definition store :: "session \<Rightarrow> db \<Rightarrow> session" where
  "store s d = (case working s of None \<Rightarrow> s\<lparr>committed := d\<rparr> | Some w \<Rightarrow> s\<lparr>working := Some d\<rparr>)"

definition sql_BEGIN :: "session \<Rightarrow> session" where
  "sql_BEGIN s = (case working s of None \<Rightarrow> s\<lparr>working := Some (committed s)\<rparr> | Some w \<Rightarrow> s)"

definition sql_COMMIT :: "session \<Rightarrow> session" where
  "sql_COMMIT s = (case working s of None \<Rightarrow> s | Some w \<Rightarrow> \<lparr>committed = w, working = None\<rparr>)"

definition sql_ROLLBACK :: "session \<Rightarrow> session" where
  "sql_ROLLBACK s = s\<lparr>working := None\<rparr>"

section \<open>Recording attendance (POST /attendance)\<close>

text \<open>
  The handler of \<open>src/unnamed/part_001\<close>, from \<open>pool.connect()\<close> on. The request is
  the parsed body: \<open>ra_date\<close> and \<open>ra_serviceType\<close> are empty when the field is missing
  (\<open>!date\<close>), \<open>ra_attendeeIds\<close> is \<open>None\<close> when the field is not an array.
\<close>

record ra_request =
  ra_date :: string
  ra_serviceType :: string
  ra_attendeeIds :: "string list option"

datatype ra_stmt = Ra_begin | Ra_delete | Ra_insert | Ra_commit | Ra_rollback

text \<open>
  The environment of one call: PostgreSQL's conversion of a text parameter to a
  \<open>DATE\<close> (\<open>None\<close> when the text is no date), the value of \<open>CURRENT_TIMESTAMP\<close>, and the
  statements that raise \<open>Other_error\<close>.
\<close>

record ra_env =
  ra_date_in :: "string \<Rightarrow> date option"
  ra_now :: timestamp
  ra_fails :: "ra_stmt \<Rightarrow> bool"

datatype ra_response =
    Ra_recorded string string nat nat
  | Ra_missing_fields
  | Ra_failed sql_error

fun ra_status :: "ra_response \<Rightarrow> nat" where
  "ra_status (Ra_recorded d st n k) = 200"
| "ra_status Ra_missing_fields = 400"
| "ra_status (Ra_failed e) = 500"

text \<open>\<open>date.split('T')[0]\<close>: the text before the first \<open>T\<close>.\<close>

definition split_T :: "string \<Rightarrow> string" where
  "split_T s = takeWhile (\<lambda>c. c \<noteq> CHR ''T'') s"

text \<open>\<open>DELETE FROM attendance WHERE date = $1 AND service_type = $2\<close>, with its row count.\<close>

definition delete_attendance :: "date \<Rightarrow> string \<Rightarrow> db \<Rightarrow> db \<times> nat" where
  "delete_attendance d st D =
     (D\<lparr>attendance := filter (\<lambda>r. \<not> (att_date r = d \<and> att_service_type r = st)) (attendance D)\<rparr>,
      length (filter (\<lambda>r. att_date r = d \<and> att_service_type r = st) (attendance D)))"

definition present_row :: "timestamp \<Rightarrow> date \<Rightarrow> string \<Rightarrow> string \<Rightarrow> att_row" where
  "present_row now d st m =
     \<lparr>att_date = d, att_service_type = st, att_member_id = m, att_present = True,
      att_checked_in_at = now\<rparr>"

text \<open>
  The multi-row \<open>INSERT ... ON CONFLICT (date, service_type, member_id) DO UPDATE SET
  present = TRUE, checked_in_at = CURRENT_TIMESTAMP\<close>, one proposed row after the other:
  a row whose key is free is inserted, a row whose key an older row holds updates that
  row, and a row whose key this command has already inserted or updated raises the
  cardinality violation. \<open>touched\<close> are the members this command has handled.
\<close>

fun upsert_present :: "timestamp \<Rightarrow> date \<Rightarrow> string \<Rightarrow> string list \<Rightarrow> string list \<Rightarrow>
    att_row list \<Rightarrow> sql_error + att_row list" where
  "upsert_present now d st touched [] tbl = Inr tbl"
| "upsert_present now d st touched (m # ms) tbl =
     (if m \<in> set touched then Inl Cardinality_violation
      else if \<exists>r \<in> set tbl. att_date r = d \<and> att_service_type r = st \<and> att_member_id r = m
      then upsert_present now d st (m # touched) ms
             (map (\<lambda>r. if att_date r = d \<and> att_service_type r = st \<and> att_member_id r = m
                        then r\<lparr>att_present := True, att_checked_in_at := now\<rparr> else r) tbl)
      else upsert_present now d st (m # touched) ms (tbl @ [present_row now d st m]))"

text \<open>
  The whole insert statement: the foreign key \<open>member_id REFERENCES members(id)\<close> is
  checked for every proposed row; the row count is the number of proposed rows.
\<close>

definition insert_attendance :: "timestamp \<Rightarrow> date \<Rightarrow> string \<Rightarrow> string list \<Rightarrow> db \<Rightarrow>
    sql_error + db \<times> nat" where
  "insert_attendance now d st ids D =
     (if \<exists>m \<in> set ids. m \<notin> m_id ` set (members D) then Inl Foreign_key_violation
      else case upsert_present now d st [] ids (attendance D) of
             Inl e \<Rightarrow> Inl e
           | Inr tbl \<Rightarrow> Inr (D\<lparr>attendance := tbl\<rparr>, length ids))"

text \<open>
  The four statements as the client runs them. A statement that raises leaves the
  session as it was.
\<close>

definition ra_BEGIN :: "ra_env \<Rightarrow> session \<Rightarrow> sql_error + session" where
  "ra_BEGIN E s = (if ra_fails E Ra_begin then Inl Other_error else Inr (sql_BEGIN s))"

definition ra_DELETE :: "ra_env \<Rightarrow> string \<Rightarrow> string \<Rightarrow> session \<Rightarrow> sql_error + session \<times> nat" where
  "ra_DELETE E nd st s =
     (if ra_fails E Ra_delete then Inl Other_error
      else case ra_date_in E nd of
             None \<Rightarrow> Inl Invalid_datetime
           | Some d \<Rightarrow> (case delete_attendance d st (current s) of (D, n) \<Rightarrow> Inr (store s D, n)))"

definition ra_INSERT :: "ra_env \<Rightarrow> string \<Rightarrow> string \<Rightarrow> string list \<Rightarrow> session \<Rightarrow>
    sql_error + session \<times> nat" where
  "ra_INSERT E nd st ids s =
     (if ra_fails E Ra_insert then Inl Other_error
      else case ra_date_in E nd of
             None \<Rightarrow> Inl Invalid_datetime
           | Some d \<Rightarrow> (case insert_attendance (ra_now E) d st ids (current s) of
                          Inl e \<Rightarrow> Inl e
                        | Inr (D, n) \<Rightarrow> Inr (store s D, n)))"

definition ra_COMMIT :: "ra_env \<Rightarrow> session \<Rightarrow> sql_error + session" where
  "ra_COMMIT E s = (if ra_fails E Ra_commit then Inl Other_error else Inr (sql_COMMIT s))"

text \<open>
  The \<open>catch\<close> block: \<open>await client.query('ROLLBACK')\<close>, then the 500 response. \<open>tr\<close>
  are the sessions so far. The \<open>ROLLBACK\<close> is awaited with no guard of its own: when it
  raises (the connection is lost, say), its error leaves the handler, which returns no
  response (\<open>Inl\<close>), and the session stays as it was. PostgreSQL itself runs
  \<open>ROLLBACK\<close> in every state of the transaction, and without one it only warns.
\<close>

definition ra_catch :: "ra_env \<Rightarrow> sql_error \<Rightarrow> session list \<Rightarrow>
    (sql_error + ra_response) \<times> session list" where
  "ra_catch E e tr =
     (if ra_fails E Ra_rollback then (Inl Other_error, tr)
      else (Inr (Ra_failed e), tr @ [sql_ROLLBACK (last tr)]))"

text \<open>
  The handler. It returns its outcome and the trace of the session. The outcome is the
  response (\<open>Inr\<close>), or the error the handler throws (\<open>Inl\<close>). The trace is the state at
  the start and after every statement that ran, so that what a reader could see at any
  moment of the call is \<open>committed\<close> of a session of the trace.
\<close>

definition record_attendance :: "ra_env \<Rightarrow> session \<Rightarrow> ra_request \<Rightarrow>
    (sql_error + ra_response) \<times> session list" where
  "record_attendance E s0 rq =
     (case ra_attendeeIds rq of
        None \<Rightarrow> (Inr Ra_missing_fields, [s0])
      | Some attendeeIds \<Rightarrow>
          if ra_date rq = [] \<or> ra_serviceType rq = [] then (Inr Ra_missing_fields, [s0])
          else
            let normalizedDate = split_T (ra_date rq); serviceType = ra_serviceType rq in
            (case ra_BEGIN E s0 of
              Inl e \<Rightarrow> ra_catch E e [s0]
            | Inr s1 \<Rightarrow>
            (case ra_DELETE E normalizedDate serviceType s1 of
              Inl e \<Rightarrow> ra_catch E e [s0, s1]
            | Inr (s2, deleted) \<Rightarrow>
            (case (if attendeeIds \<noteq> [] then ra_INSERT E normalizedDate serviceType attendeeIds s2
                   else Inr (s2, 0)) of
              Inl e \<Rightarrow> ra_catch E e [s0, s1, s2]
            | Inr (s3, insertedCount) \<Rightarrow>
            (case ra_COMMIT E s3 of
              Inl e \<Rightarrow> ra_catch E e [s0, s1, s2, s3]
            | Inr s4 \<Rightarrow> (Inr (Ra_recorded normalizedDate serviceType insertedCount deleted),
                         [s0, s1, s2, s3, s4]))))))"

text \<open>What a query for one service occurrence returns.\<close>

definition rows_for :: "date \<Rightarrow> string \<Rightarrow> db \<Rightarrow> att_row list" where
  "rows_for d st D = filter (\<lambda>r. att_date r = d \<and> att_service_type r = st) (attendance D)"

section \<open>Verifying a stream access code (POST /verify-stream-code)\<close>

text \<open>
  The handler of \<open>src/unnamed/part_007\<close> (its second file), from the parsed body on.
  \<open>vc_now\<close> is the handler's \<open>new Date()\<close>, \<open>vc_current_timestamp\<close> the
  \<open>CURRENT_TIMESTAMP\<close> of its \<open>UPDATE\<close>; \<open>vc_fails\<close> says which of the three queries
  is rejected by the store.
\<close>

datatype vc_stmt = Vc_lookup | Vc_active | Vc_update

record vc_env =
  vc_now :: timestamp
  vc_current_timestamp :: timestamp
  vc_fails :: "vc_stmt \<Rightarrow> bool"

record stream_credentials =
  memberName :: string
  videoId :: string
  videoUrl :: "string option"
  password :: string
  expiresAt :: timestamp

datatype vc_response =
    Vc_valid stream_credentials
  | Vc_invalid_format
  | Vc_not_found
  | Vc_revoked
  | Vc_expired
  | Vc_no_active_stream
  | Vc_failed

fun vc_status :: "vc_response \<Rightarrow> nat" where
  "vc_status (Vc_valid c) = 200"
| "vc_status Vc_invalid_format = 400"
| "vc_status Vc_not_found = 404"
| "vc_status Vc_revoked = 403"
| "vc_status Vc_expired = 403"
| "vc_status Vc_no_active_stream = 503"
| "vc_status Vc_failed = 500"

text \<open>
  \<open>code.toUpperCase()\<close> on the characters a code can hold: the letters \<open>a\<close> to \<open>z\<close>
  go to \<open>A\<close> to \<open>Z\<close>, every other character of the ASCII range stays.
\<close>

definition upper_char :: "char \<Rightarrow> char" where
  "upper_char c =
     (if CHR ''a'' \<le> c \<and> c \<le> CHR ''z'' then char_of (of_char c - (32::nat)) else c)"

definition toUpperCase :: "string \<Rightarrow> string" where
  "toUpperCase s = map upper_char s"

text \<open>\<open>SELECT ... FROM stream_access_codes WHERE code = $1\<close>.\<close>

definition select_code :: "string \<Rightarrow> db \<Rightarrow> code_row list" where
  "select_code c D = filter (\<lambda>r. sc_code r = c) (stream_access_codes D)"

text \<open>
  \<open>SELECT video_id, password, video_url FROM vimeo_passwords WHERE active = true
  ORDER BY created_at DESC LIMIT 1\<close>: the active rows, newest first (rows of one
  \<open>created_at\<close> in table order), and the first of them if there is one.
\<close>

definition active_password :: "db \<Rightarrow> vimeo_row option" where
  "active_password D =
     (case sort_key (\<lambda>r. - vp_created_at r) (filter vp_active (vimeo_passwords D)) of
        [] \<Rightarrow> None
      | v # _ \<Rightarrow> Some v)"

text \<open>
  \<open>UPDATE stream_access_codes SET first_used_at = COALESCE(first_used_at,
  CURRENT_TIMESTAMP), last_used_at = CURRENT_TIMESTAMP, use_count = use_count + 1
  WHERE id = $1\<close>. \<open>use_count\<close> is an \<open>INTEGER\<close>: the sum raises beyond
  \<open>2147483647\<close>, and then no row changes.
\<close>

definition coalesce :: "'a option \<Rightarrow> 'a \<Rightarrow> 'a option" where
  "coalesce x y = (case x of None \<Rightarrow> Some y | Some v \<Rightarrow> Some v)"

definition mark_used :: "timestamp \<Rightarrow> code_row \<Rightarrow> code_row" where
  "mark_used ts r =
     r\<lparr>sc_first_used_at := coalesce (sc_first_used_at r) ts,
       sc_last_used_at := Some ts,
       sc_use_count := sc_use_count r + 1\<rparr>"

definition update_usage :: "timestamp \<Rightarrow> nat \<Rightarrow> db \<Rightarrow> sql_error + db" where
  "update_usage ts i D =
     (if \<exists>r \<in> set (stream_access_codes D). sc_id r = i \<and> sc_use_count r + 1 > 2147483647
      then Inl Numeric_out_of_range
      else Inr (D\<lparr>stream_access_codes :=
                    map (\<lambda>r. if sc_id r = i then mark_used ts r else r) (stream_access_codes D)\<rparr>))"

text \<open>
  The handler: the response and the store after the call. The queries run on the pool,
  each in its own transaction.
\<close>

definition verify_stream_code :: "vc_env \<Rightarrow> db \<Rightarrow> string \<Rightarrow> vc_response \<times> db" where
  "verify_stream_code E D code =
     (if code = [] \<or> length code \<noteq> 6 then (Vc_invalid_format, D)
      else
        let normalizedCode = toUpperCase code in
        if vc_fails E Vc_lookup then (Vc_failed, D)
        else
          (case select_code normalizedCode D of
             [] \<Rightarrow> (Vc_not_found, D)
           | accessCode # _ \<Rightarrow>
               if sc_revoked accessCode then (Vc_revoked, D)
               else if vc_now E > sc_expires_at accessCode then (Vc_expired, D)
               else if vc_fails E Vc_active then (Vc_failed, D)
               else
                 (case active_password D of
                    None \<Rightarrow> (Vc_no_active_stream, D)
                  | Some vimeo \<Rightarrow>
                      if vc_fails E Vc_update then (Vc_failed, D)
                      else
                        (case update_usage (vc_current_timestamp E) (sc_id accessCode) D of
                           Inl e \<Rightarrow> (Vc_failed, D)
                         | Inr D' \<Rightarrow>
                             (Vc_valid \<lparr>memberName = sc_member_name accessCode,
                                        videoId = vp_video_id vimeo,
                                        videoUrl = vp_video_url vimeo,
                                        password = vp_password vimeo,
                                        expiresAt = sc_expires_at accessCode\<rparr>, D')))))"

text \<open>
  A sequence of calls, each with its own environment and input, run one after the
  other on the store; \<open>verify_all\<close> gives the store at the end.
\<close>

fun verify_all :: "db \<Rightarrow> (vc_env \<times> string) list \<Rightarrow> db" where
  "verify_all D [] = D"
| "verify_all D ((E, code) # calls) = verify_all (snd (verify_stream_code E D code)) calls"

text \<open>
  The \<open>CURRENT_TIMESTAMP\<close>s of the calls of the sequence that validate the code \<open>c\<close>
  successfully (status 200), in order.
\<close>

fun is_valid :: "vc_response \<Rightarrow> bool" where
  "is_valid (Vc_valid c) = True"
| "is_valid r = False"

fun validations :: "string \<Rightarrow> db \<Rightarrow> (vc_env \<times> string) list \<Rightarrow> timestamp list" where
  "validations c D [] = []"
| "validations c D ((E, code) # calls) =
     (if is_valid (fst (verify_stream_code E D code)) \<and> toUpperCase code = c
      then [vc_current_timestamp E] else [])
     @ validations c (snd (verify_stream_code E D code)) calls"

section \<open>Absentee check-in (POST /absence)\<close>

text \<open>
  The handler of \<open>src/unnamed/part_005\<close>, from the parsed body on. A missing text
  field is the empty string (\<open>!name\<close>), a missing optional field is \<open>None\<close>.
\<close>

record ci_request =
  ci_name :: string
  ci_phone :: string
  ci_reason :: string
  ci_prayerRequest :: "string option"
  ci_serviceDate :: "string option"

datatype ci_stmt = Ci_members | Ci_insert_checkin | Ci_active | Ci_insert_code nat | Ci_mark_sent

text \<open>
  The environment of one call: the date conversion of the store, \<open>ci_today\<close> (the text
  \<open>new Date().toISOString().split('T')[0]\<close>), the clock, \<open>crypto.randomInt\<close> (\<open>ci_randomInt
  k i\<close> is the \<open>i\<close>-th number drawn in the \<open>k\<close>-th call of \<open>generateAccessCode\<close>), the
  statements the store rejects (\<open>Ci_insert_code k\<close> is the insert of the \<open>k\<close>-th
  generated code), whether the SMS client and sender number are configured, and whether
  the SMS provider rejects the message.
\<close>

record ci_env =
  ci_date_in :: "string \<Rightarrow> date option"
  ci_today :: string
  ci_now :: timestamp
  ci_randomInt :: "nat \<Rightarrow> nat \<Rightarrow> nat"
  ci_fails :: "ci_stmt \<Rightarrow> bool"
  ci_twilio :: bool
  ci_sms_fails :: bool

datatype sms_error =
    Unable_to_generate_access_code
  | SMS_service_not_configured
  | No_active_live_stream_password
  | Raised_by_store sql_error
  | Raised_by_sms_provider

datatype ci_response =
    Ci_recorded nat bool "sms_error option"
  | Ci_invalid string
  | Ci_not_member
  | Ci_failed

fun ci_status :: "ci_response \<Rightarrow> nat" where
  "ci_status (Ci_recorded i sent err) = 200"
| "ci_status (Ci_invalid msg) = 400"
| "ci_status Ci_not_member = 403"
| "ci_status Ci_failed = 500"

text \<open>
  A character of a text is a code unit below 256. \<open>s.trim()\<close> strips the white space and
  line terminators of JavaScript from both ends; those below 256 are U+0009 to U+000D,
  the space U+0020 and the no-break space U+00A0. Then \<open>s.replace(/\D/g, '')\<close> and
  \<open>s.slice(-n)\<close>.
\<close>

definition is_space :: "char \<Rightarrow> bool" where
  "is_space c =
     (c \<in> set [CHR 0x09, CHR 0x0A, CHR 0x0B, CHR 0x0C, CHR 0x0D, CHR 0x20, CHR 0xA0])"

definition trim :: "string \<Rightarrow> string" where
  "trim s = rev (dropWhile is_space (rev (dropWhile is_space s)))"

definition is_digit :: "char \<Rightarrow> bool" where
  "is_digit c = (c \<in> set ''0123456789'')"

definition digits_only :: "string \<Rightarrow> string" where
  "digits_only s = filter is_digit s"

definition slice_last :: "nat \<Rightarrow> string \<Rightarrow> string" where
  "slice_last n s = drop (length s - n) s"

definition validReasons :: "string list" where
  "validReasons = [''sick'', ''vacation'', ''business'', ''other'']"

text \<open>
  \<open>SELECT ... FROM members WHERE RIGHT(REGEXP_REPLACE(phone, '[^0-9]', '', 'g'), 10) = $1
  LIMIT 1\<close>: the members whose phone, reduced to its last ten digits, is the parameter.
  A \<open>NULL\<close> phone matches nothing.
\<close>

definition phone_matches :: "string \<Rightarrow> member \<Rightarrow> bool" where
  "phone_matches p m =
     (case m_phone m of None \<Rightarrow> False | Some ph \<Rightarrow> slice_last 10 (digits_only ph) = p)"

definition select_member_by_phone :: "string \<Rightarrow> db \<Rightarrow> member list" where
  "select_member_by_phone p D = take 1 (filter (phone_matches p) (members D))"

text \<open>An identifier no row of the table has (the store's \<open>gen_random_uuid()\<close>).\<close>

definition fresh_id :: "nat list \<Rightarrow> nat" where
  "fresh_id ids = Suc (fold max ids 0)"

text \<open>
  \<open>INSERT INTO absentee_checkins (name, phone, reason, prayer_request, service_date)
  VALUES (...) RETURNING ...\<close>.
\<close>

definition insert_checkin :: "ci_env \<Rightarrow> string \<Rightarrow> string \<Rightarrow> string \<Rightarrow> string option \<Rightarrow>
    string \<Rightarrow> db \<Rightarrow> sql_error + checkin \<times> db" where
  "insert_checkin E name phone reason prayer effectiveDate D =
     (if ci_fails E Ci_insert_checkin then Inl Other_error
      else case ci_date_in E effectiveDate of
             None \<Rightarrow> Inl Invalid_datetime
           | Some d \<Rightarrow>
               let row = \<lparr>ck_id = fresh_id (map ck_id (absentee_checkins D)), ck_name = name,
                          ck_phone = phone, ck_reason = reason, ck_prayer_request = prayer,
                          ck_service_date = d, ck_livestream_sent = False,
                          ck_livestream_sent_at = None, ck_created_at = ci_now E\<rparr>
               in Inr (row, D\<lparr>absentee_checkins := absentee_checkins D @ [row]\<rparr>))"

text \<open>
  \<open>generateAccessCode\<close>: six characters, each \<open>chars.charAt(crypto.randomInt(chars.length))\<close>;
  \<open>charAt\<close> beyond the end of the text is the empty text. \<open>draw i\<close> is the \<open>i\<close>-th number
  \<open>randomInt\<close> returns.
\<close>

definition access_code_chars :: string where
  "access_code_chars = ''ABCDEFGHJKMNPQRSTUVWXYZ23456789''"

definition charAt :: "string \<Rightarrow> nat \<Rightarrow> string" where
  "charAt s i = (if i < length s then [s ! i] else [])"

definition generateAccessCode :: "(nat \<Rightarrow> nat) \<Rightarrow> string" where
  "generateAccessCode draw = concat (map (\<lambda>i. charAt access_code_chars (draw i)) [0..<6])"

text \<open>
  \<open>INSERT INTO stream_access_codes (code, member_name, phone, absentee_checkin_id,
  expires_at)\<close> with \<open>expires_at\<close> 24 hours (in milliseconds) after the clock: the
  \<open>UNIQUE\<close> constraint on \<open>code\<close> raises the unique violation.
\<close>

definition insert_access_code :: "ci_env \<Rightarrow> nat \<Rightarrow> string \<Rightarrow> string \<Rightarrow> string \<Rightarrow> nat \<Rightarrow> db \<Rightarrow>
    sql_error + db" where
  "insert_access_code E k accessCode name phone checkin_id D =
     (if ci_fails E (Ci_insert_code k) then Inl Other_error
      else if accessCode \<in> sc_code ` set (stream_access_codes D) then Inl Unique_violation
      else Inr (D\<lparr>stream_access_codes := stream_access_codes D @
                  [\<lparr>sc_id = fresh_id (map sc_id (stream_access_codes D)), sc_code = accessCode,
                    sc_member_name = name, sc_phone = Some phone,
                    sc_absentee_checkin_id = Some checkin_id,
                    sc_expires_at = ci_now E + 86400000, sc_first_used_at = None,
                    sc_last_used_at = None, sc_use_count = 0, sc_revoked = False\<rparr>]\<rparr>))"

text \<open>
  The loop \<open>while (!codeGenerated && attempts < 10)\<close>: a unique violation counts one
  attempt and goes round again, any other error is thrown on, a successful insert ends
  the loop. The result is the error thrown, or the code (\<open>None\<close> when \<open>codeGenerated\<close>
  stays false) with the store.
\<close>

function issue_access_code :: "ci_env \<Rightarrow> string \<Rightarrow> string \<Rightarrow> nat \<Rightarrow> nat \<Rightarrow> db \<Rightarrow>
    sql_error + string option \<times> db" where
  "issue_access_code E name phone checkin_id attempts D =
     (if attempts < 10 then
        (let accessCode = generateAccessCode (ci_randomInt E attempts) in
         case insert_access_code E attempts accessCode name phone checkin_id D of
           Inr D' \<Rightarrow> Inr (Some accessCode, D')
         | Inl codeErr \<Rightarrow>
             if codeErr = Unique_violation
             then issue_access_code E name phone checkin_id (attempts + 1) D
             else Inl codeErr)
      else Inr (None, D))"
  by pat_completeness auto
termination
  by (relation "measure (\<lambda>(E, name, phone, checkin_id, attempts, D). 10 - attempts)") auto

declare issue_access_code.simps [simp del]

text \<open>
  \<open>UPDATE absentee_checkins SET livestream_sent = true, livestream_sent_at =
  CURRENT_TIMESTAMP WHERE id = $1\<close>.
\<close>

definition mark_livestream_sent :: "timestamp \<Rightarrow> nat \<Rightarrow> db \<Rightarrow> db" where
  "mark_livestream_sent ts i D =
     D\<lparr>absentee_checkins :=
         map (\<lambda>c. if ck_id c = i then c\<lparr>ck_livestream_sent := True, ck_livestream_sent_at := Some ts\<rparr>
                   else c) (absentee_checkins D)\<rparr>"

text \<open>
  The inner \<open>try\<close> of the handler, after the check-in is stored: \<open>smsSent\<close>, \<open>smsError\<close>
  and the store. \<open>formatPhone\<close> of a non-empty phone is never \<open>null\<close>, so the sending of
  the message is always tried once a code exists.
\<close>

definition send_stream_link :: "ci_env \<Rightarrow> string \<Rightarrow> string \<Rightarrow> nat \<Rightarrow> db \<Rightarrow>
    bool \<times> sms_error option \<times> db" where
  "send_stream_link E name normalizedPhone checkin_id D =
     (if ci_fails E Ci_active then (False, Some (Raised_by_store Other_error), D)
      else if active_password D \<noteq> None \<and> ci_twilio E then
        (case issue_access_code E name normalizedPhone checkin_id 0 D of
           Inl e \<Rightarrow> (False, Some (Raised_by_store e), D)
         | Inr (None, D') \<Rightarrow> (False, Some Unable_to_generate_access_code, D')
         | Inr (Some accessCode, D') \<Rightarrow>
             if ci_sms_fails E then (False, Some Raised_by_sms_provider, D')
             else if ci_fails E Ci_mark_sent then (True, Some (Raised_by_store Other_error), D')
             else (True, None, mark_livestream_sent (ci_now E) checkin_id D'))
      else if \<not> ci_twilio E then (False, Some SMS_service_not_configured, D)
      else (False, Some No_active_live_stream_password, D))"

text \<open>The handler: the response and the store after the call.\<close>

definition submit_absence :: "ci_env \<Rightarrow> db \<Rightarrow> ci_request \<Rightarrow> ci_response \<times> db" where
  "submit_absence E D rq =
     (if ci_name rq = [] \<or> trim (ci_name rq) = [] then (Ci_invalid ''Name is required'', D)
      else if ci_phone rq = [] \<or> trim (ci_phone rq) = []
        then (Ci_invalid ''Phone number is required for receiving live stream link'', D)
      else if ci_reason rq = [] then (Ci_invalid ''Reason for absence is required'', D)
      else if ci_reason rq \<notin> set validReasons
        then (Ci_invalid ''Invalid reason. Must be: sick, vacation, business, or other'', D)
      else
        let cleanedPhone = digits_only (ci_phone rq);
            last10Digits = slice_last 10 cleanedPhone in
        if ci_fails E Ci_members then (Ci_failed, D)
        else
          (case select_member_by_phone last10Digits D of
             [] \<Rightarrow> (Ci_not_member, D)
           | member # _ \<Rightarrow>
               let effectiveDate =
                     (case ci_serviceDate rq of
                        None \<Rightarrow> ci_today E
                      | Some sd \<Rightarrow> if sd = [] then ci_today E else sd);
                   normalizedPhone = last10Digits;
                   prayer =
                     (case ci_prayerRequest rq of
                        None \<Rightarrow> None
                      | Some pr \<Rightarrow> if trim pr = [] then None else Some (trim pr)) in
               (case insert_checkin E (trim (ci_name rq)) normalizedPhone (ci_reason rq) prayer
                       effectiveDate D of
                  Inl e \<Rightarrow> (Ci_failed, D)
                | Inr (checkin, D1) \<Rightarrow>
                    (case send_stream_link E (trim (ci_name rq)) normalizedPhone (ck_id checkin) D1 of
                       (smsSent, smsError, D2) \<Rightarrow>
                         (Ci_recorded (ck_id checkin) smsSent (if smsSent then None else smsError),
                          D2)))))"

section \<open>Livestream password rotation\<close>

text \<open>
  \<open>generatePassword\<close> of \<open>src/netlify/functions/vimeo-password.js\<close> and of
  \<open>scheduled-password-rotation.js\<close> (the same text in both). \<open>crypto.randomBytes(n)\<close>
  are the first \<open>n\<close> bytes of the entropy source; the \<open>i\<close>-th character is
  \<open>chars[randomBytes[i] % chars.length]\<close>.
\<close>

definition password_chars :: string where
  "password_chars = ''ABCDEFGHJKLMNPQRSTUVWXYZabcdefghjkmnpqrstuvwxyz23456789''"

definition randomBytes :: "(nat \<Rightarrow> 8 word) \<Rightarrow> nat \<Rightarrow> 8 word list" where
  "randomBytes entropy n = map entropy [0..<n]"

definition generatePassword :: "(nat \<Rightarrow> 8 word) \<Rightarrow> nat \<Rightarrow> string" where
  "generatePassword entropy len =
     (let bytes = randomBytes entropy len
      in map (\<lambda>i. password_chars ! (unat (bytes ! i) mod length password_chars)) [0..<len])"

text \<open>
  The environment of a rotation: the configuration (\<open>VIMEO_VIDEO_ID\<close>, empty when
  unset; whether \<open>VIMEO_ACCESS_TOKEN\<close> is set), whether the request to the video
  provider succeeds, the entropy source, the clock and the statements the store rejects.
\<close>

datatype rot_stmt = Rot_schedule | Rot_current | Rot_deactivate | Rot_insert | Rot_last_run

record rot_env =
  rot_VIMEO_VIDEO_ID :: string
  rot_VIMEO_ACCESS_TOKEN :: bool
  rot_push_ok :: bool
  rot_entropy :: "nat \<Rightarrow> 8 word"
  rot_now :: timestamp
  rot_fails :: "rot_stmt \<Rightarrow> bool"

text \<open>
  The body of \<open>POST /vimeo-password\<close>; a field the body lacks is the empty text.
\<close>

record rot_request =
  rr_password :: string
  rr_videoId :: string
  rr_videoUrl :: string
  rr_rotationType :: string

datatype rot_response =
    Rot_saved vimeo_row bool
  | Rot_rotated bool
  | Rot_disabled
  | Rot_no_video_id
  | Rot_failed

fun rot_status :: "rot_response \<Rightarrow> nat" where
  "rot_status (Rot_saved r u) = 200"
| "rot_status (Rot_rotated u) = 200"
| "rot_status Rot_disabled = 200"
| "rot_status Rot_no_video_id = 400"
| "rot_status Rot_failed = 500"

text \<open>\<open>UPDATE vimeo_passwords SET active = false WHERE active = true\<close>.\<close>

definition deactivate_passwords :: "db \<Rightarrow> db" where
  "deactivate_passwords D =
     D\<lparr>vimeo_passwords :=
         map (\<lambda>r. if vp_active r then r\<lparr>vp_active := False\<rparr> else r) (vimeo_passwords D)\<rparr>"

text \<open>
  \<open>INSERT INTO vimeo_passwords (video_id, password, video_url, active, rotation_type)
  VALUES ($1, $2, $3, true, $4)\<close>.
\<close>

definition new_password_row :: "timestamp \<Rightarrow> string \<Rightarrow> string \<Rightarrow> string option \<Rightarrow> string \<Rightarrow> vimeo_row" where
  "new_password_row now vid pw url rt =
     \<lparr>vp_video_id = vid, vp_password = pw, vp_video_url = url, vp_active = True,
      vp_rotation_type = rt, vp_created_at = now\<rparr>"

definition insert_password :: "vimeo_row \<Rightarrow> db \<Rightarrow> db" where
  "insert_password r D = D\<lparr>vimeo_passwords := vimeo_passwords D @ [r]\<rparr>"

text \<open>
  The \<open>POST\<close> branch of the handler of \<open>vimeo-password.js\<close>. The request to the video
  provider is made when the token is set; its failure is caught and only recorded in
  \<open>vimeoUpdated\<close>. The two statements run on the pool, outside any transaction.
\<close>

definition change_password :: "rot_env \<Rightarrow> db \<Rightarrow> rot_request \<Rightarrow> rot_response \<times> db" where
  "change_password E D rq =
     (let effectiveVideoId = (if rr_videoId rq \<noteq> [] then rr_videoId rq else rot_VIMEO_VIDEO_ID E) in
      if effectiveVideoId = [] then (Rot_no_video_id, D)
      else
        let newPassword =
              (if rr_password rq \<noteq> [] then rr_password rq else generatePassword (rot_entropy E) 8);
            effectiveRotationType =
              (if rr_rotationType rq \<noteq> [] then rr_rotationType rq else ''manual'');
            vimeoUpdated = (rot_VIMEO_ACCESS_TOKEN E \<and> rot_push_ok E) in
        if rot_fails E Rot_deactivate then (Rot_failed, D)
        else
          let D1 = deactivate_passwords D;
              effectiveUrl =
                (if rr_videoUrl rq \<noteq> [] then Some (rr_videoUrl rq)
                 else if rot_VIMEO_VIDEO_ID E \<noteq> []
                   then Some (''https://vimeo.com/event/'' @ effectiveVideoId)
                 else None) in
          if rot_fails E Rot_insert then (Rot_failed, D1)
          else
            let saved = new_password_row (rot_now E) effectiveVideoId newPassword effectiveUrl
                          effectiveRotationType
            in (Rot_saved saved vimeoUpdated, insert_password saved D1))"

text \<open>
  \<open>UPDATE password_rotation_schedule SET last_run = CURRENT_TIMESTAMP WHERE enabled =
  true\<close>.
\<close>

definition set_last_run :: "timestamp \<Rightarrow> db \<Rightarrow> db" where
  "set_last_run now D =
     D\<lparr>password_rotation_schedule :=
         map (\<lambda>s. if sch_enabled s then s\<lparr>sch_last_run := Some now\<rparr> else s)
           (password_rotation_schedule D)\<rparr>"

text \<open>The handler of \<open>scheduled-password-rotation.js\<close>.\<close>

definition scheduled_rotation :: "rot_env \<Rightarrow> db \<Rightarrow> rot_response \<times> db" where
  "scheduled_rotation E D =
     (if rot_fails E Rot_schedule then (Rot_failed, D)
      else if filter sch_enabled (password_rotation_schedule D) = [] then (Rot_disabled, D)
      else if rot_fails E Rot_current then (Rot_failed, D)
      else
        let videoId = (case active_password D of Some r \<Rightarrow> vp_video_id r | None \<Rightarrow> rot_VIMEO_VIDEO_ID E);
            videoUrl = (case active_password D of Some r \<Rightarrow> vp_video_url r | None \<Rightarrow> None) in
        if videoId = [] then (Rot_no_video_id, D)
        else
          let newPassword = generatePassword (rot_entropy E) 8;
              vimeoUpdated = (rot_VIMEO_ACCESS_TOKEN E \<and> rot_push_ok E) in
          if rot_fails E Rot_deactivate then (Rot_failed, D)
          else
            let D1 = deactivate_passwords D in
            if rot_fails E Rot_insert then (Rot_failed, D1)
            else
              let D2 = insert_password
                         (new_password_row (rot_now E) videoId newPassword videoUrl ''scheduled'') D1 in
              if rot_fails E Rot_last_run then (Rot_failed, D2)
              else (Rot_rotated vimeoUpdated, set_last_run (rot_now E) D2))"

text \<open>A rotation is completed when it answers with the saved or rotated password.\<close>

fun completed :: "rot_response \<Rightarrow> bool" where
  "completed (Rot_saved r u) = True"
| "completed (Rot_rotated u) = True"
| "completed r = False"

section \<open>Member absence report (GET /member-absence-report)\<close>

subsection \<open>JavaScript numbers\<close>

text \<open>
  A JavaScript number is an IEEE 754 double: the result of an arithmetic operation is the
  exact result rounded to the nearest number with a 53-bit significand, ties to the even
  significand. \<open>binary64\<close> is that rounding on the rationals (in the range of normal
  doubles, which counts of services never leave); \<open>Math.round\<close> gives the nearest integer,
  a tie going up.
\<close>

definition pow2 :: "int \<Rightarrow> rat" where
  "pow2 e = (if 0 \<le> e then 2 ^ nat e else 1 / 2 ^ nat (- e))"

definition round_half_even :: "rat \<Rightarrow> int" where
  "round_half_even x =
     (let f = \<lfloor>x\<rfloor>; d = x - of_int f
      in if d < 1 / 2 then f else if 1 / 2 < d then f + 1 else if even f then f else f + 1)"

definition binary64 :: "rat \<Rightarrow> rat" where
  "binary64 x =
     (if x = 0 then 0
      else
        let a = \<bar>x\<bar>;
            k = bitlen (fst (quotient_of a)) - bitlen (snd (quotient_of a));
            e = (if pow2 k \<le> a then k else k - 1);
            m = round_half_even (a / pow2 (e - 52))
        in sgn x * of_int m * pow2 (e - 52))"

definition js_divide :: "rat \<Rightarrow> rat \<Rightarrow> rat" where
  "js_divide a b = binary64 (a / b)"

definition js_times :: "rat \<Rightarrow> rat \<Rightarrow> rat" where
  "js_times a b = binary64 (a * b)"

definition Math_round :: "rat \<Rightarrow> int" where
  "Math_round x = \<lfloor>x + 1 / 2\<rfloor>"

text \<open>
  \<open>totalServicesInPeriod > 0 ? Math.round((totalAttended / totalServicesInPeriod) * 100)
  : 0\<close>.
\<close>

definition attendanceRate :: "nat \<Rightarrow> nat \<Rightarrow> int" where
  "attendanceRate totalAttended totalServicesInPeriod =
     (if totalServicesInPeriod > 0
      then Math_round (js_times (js_divide (of_nat totalAttended) (of_nat totalServicesInPeriod)) 100)
      else 0)"

text \<open>
  The rate as the specification words it: 100 times attended over occurred, rounded to
  the nearest integer, and 0 when nothing occurred.
\<close>

definition rate_by_spec :: "nat \<Rightarrow> nat \<Rightarrow> int" where
  "rate_by_spec attended occurred =
     (if occurred = 0 then 0 else \<lfloor>100 * of_nat attended / (of_nat occurred :: rat) + 1 / 2\<rfloor>)"

subsection \<open>The handler\<close>

text \<open>
  The handler of \<open>src/unnamed/part_006\<close>, from the query parameters on (a missing
  parameter is the empty text). \<open>mr_iso\<close> is what \<open>toISOString().split('T')[0]\<close> gives for
  a \<open>DATE\<close> the driver returned.
\<close>

record mr_request =
  mr_memberId :: string
  mr_fromDate :: string
  mr_toDate :: string

datatype mr_stmt = Mr_member | Mr_services | Mr_attended | Mr_checkins

record mr_env =
  mr_date_in :: "string \<Rightarrow> date option"
  mr_iso :: "date \<Rightarrow> string"
  mr_fails :: "mr_stmt \<Rightarrow> bool"

record absentee_submission =
  sub_reason :: string
  sub_prayerRequest :: "string option"
  sub_livestreamSent :: bool
  sub_livestreamSentAt :: "timestamp option"
  sub_submittedAt :: timestamp

record absence_detail =
  ad_date :: string
  ad_serviceType :: string
  ad_absenteeSubmission :: "absentee_submission option"

record mr_summary =
  totalServicesInPeriod :: nat
  totalAttended :: nat
  totalAbsences :: nat
  rate :: int
  absencesWithSubmission :: nat
  absencesWithoutSubmission :: nat

datatype mr_response =
    Mr_report mr_summary "(string \<times> nat \<times> nat) list" "absence_detail list"
  | Mr_bad_request string
  | Mr_not_found
  | Mr_failed

text \<open>
  \<open>SELECT DISTINCT date, service_type FROM attendance WHERE date >= $1 AND date <= $2
  ORDER BY date DESC, service_type\<close>.
\<close>

definition select_services :: "date \<Rightarrow> date \<Rightarrow> db \<Rightarrow> (date \<times> string) list" where
  "select_services lo hi D =
     sort_key (\<lambda>(d, st). (- d, st))
       (remdups (map (\<lambda>r. (att_date r, att_service_type r))
          (filter (\<lambda>r. lo \<le> att_date r \<and> att_date r \<le> hi) (attendance D))))"

text \<open>
  \<open>SELECT date, service_type FROM attendance WHERE member_id = $1 AND date >= $2 AND
  date <= $3 AND present = true\<close>.
\<close>

definition select_attended :: "string \<Rightarrow> date \<Rightarrow> date \<Rightarrow> db \<Rightarrow> (date \<times> string) list" where
  "select_attended m lo hi D =
     map (\<lambda>r. (att_date r, att_service_type r))
       (filter (\<lambda>r. att_member_id r = m \<and> lo \<le> att_date r \<and> att_date r \<le> hi \<and> att_present r)
          (attendance D))"

text \<open>The key \<open>`${date.toISOString().split('T')[0]}|${service_type}`\<close> of a service.\<close>

definition service_key :: "(date \<Rightarrow> string) \<Rightarrow> date \<times> string \<Rightarrow> string" where
  "service_key toISO s = toISO (fst s) @ ''|'' @ snd s"

text \<open>
  \<open>SELECT ... FROM absentee_checkins WHERE RIGHT(REGEXP_REPLACE(phone, '[^0-9]', '',
  'g'), 10) = $1 AND service_date >= $2 AND service_date <= $3 ORDER BY service_date DESC\<close>.
\<close>

definition select_checkins :: "string \<Rightarrow> date \<Rightarrow> date \<Rightarrow> db \<Rightarrow> checkin list" where
  "select_checkins p lo hi D =
     sort_key (\<lambda>c. - ck_service_date c)
       (filter (\<lambda>c. slice_last 10 (digits_only (ck_phone c)) = p \<and>
                     lo \<le> ck_service_date c \<and> ck_service_date c \<le> hi) (absentee_checkins D))"

definition submission_of :: "checkin \<Rightarrow> absentee_submission" where
  "submission_of c =
     \<lparr>sub_reason = ck_reason c, sub_prayerRequest = ck_prayer_request c,
      sub_livestreamSent = ck_livestream_sent c, sub_livestreamSentAt = ck_livestream_sent_at c,
      sub_submittedAt = ck_created_at c\<rparr>"

text \<open>The first occurrences of the elements of a list, in order (the keys of a JavaScript object).\<close>

definition first_occurrences :: "'a list \<Rightarrow> 'a list" where
  "first_occurrences xs = rev (remdups (rev xs))"

definition member_absence_report :: "mr_env \<Rightarrow> db \<Rightarrow> mr_request \<Rightarrow> mr_response" where
  "member_absence_report E D rq =
     (if mr_memberId rq = [] then Mr_bad_request ''memberId is required''
      else if mr_fromDate rq = [] \<or> mr_toDate rq = []
        then Mr_bad_request ''fromDate and toDate are required''
      else if mr_fails E Mr_member then Mr_failed
      else
        (case filter (\<lambda>m. m_id m = mr_memberId rq) (members D) of
           [] \<Rightarrow> Mr_not_found
         | member # _ \<Rightarrow>
             (case (mr_date_in E (mr_fromDate rq), mr_date_in E (mr_toDate rq)) of
                (Some lo, Some hi) \<Rightarrow>
                  if mr_fails E Mr_services \<or> mr_fails E Mr_attended then Mr_failed
                  else
                    let allServices = select_services lo hi D;
                        attendedSet = set (map (service_key (mr_iso E))
                                         (select_attended (mr_memberId rq) lo hi D));
                        absences = filter (\<lambda>service. service_key (mr_iso E) service \<notin> attendedSet)
                                     allServices;
                        cleanedPhone = digits_only (case m_phone member of None \<Rightarrow> [] | Some ph \<Rightarrow> ph);
                        last10Digits = slice_last 10 cleanedPhone in
                    if length last10Digits = 10 \<and> mr_fails E Mr_checkins then Mr_failed
                    else
                      let absenteeCheckins =
                            (if length last10Digits = 10 then select_checkins last10Digits lo hi D
                             else []);
                          absenteeByDate =
                            (\<lambda>dateKey. filter (\<lambda>c. mr_iso E (ck_service_date c) = dateKey)
                                          absenteeCheckins);
                          detailedAbsences =
                            map (\<lambda>absence.
                                   \<lparr>ad_date = mr_iso E (fst absence), ad_serviceType = snd absence,
                                    ad_absenteeSubmission =
                                      (case absenteeByDate (mr_iso E (fst absence)) of
                                         [] \<Rightarrow> None
                                       | c # _ \<Rightarrow> Some (submission_of c))\<rparr>) absences;
                          serviceTypeTallies =
                            map (\<lambda>t. (t,
                                   length (filter (\<lambda>a. snd a = t) absences),
                                   length (filter (\<lambda>a. snd a = t \<and>
                                             absenteeByDate (mr_iso E (fst a)) \<noteq> []) absences)))
                              (first_occurrences (map snd absences));
                          totalServices = length allServices;
                          totalAbs = length absences;
                          totalAtt = totalServices - totalAbs;
                          withSubmission =
                            length (filter (\<lambda>a. ad_absenteeSubmission a \<noteq> None) detailedAbsences)
                      in Mr_report
                           \<lparr>totalServicesInPeriod = totalServices, totalAttended = totalAtt,
                            totalAbsences = totalAbs,
                            rate = attendanceRate totalAtt totalServices,
                            absencesWithSubmission = withSubmission,
                            absencesWithoutSubmission = totalAbs - withSubmission\<rparr>
                           serviceTypeTallies detailedAbsences
              | _ \<Rightarrow> Mr_failed)))"

fun report_summary :: "mr_response \<Rightarrow> mr_summary option" where
  "report_summary (Mr_report sm tallies details) = Some sm"
| "report_summary r = None"

section \<open>Example data\<close>

text \<open>A small store and the calls the theorems below are run on.\<close>

definition ex_members :: "member list" where
  "ex_members =
     [\<lparr>m_id = ''m1'', m_first_name = ''Ann'', m_last_name = ''Lee'', m_phone = Some ''+1 (555) 987-6543''\<rparr>,
      \<lparr>m_id = ''m2'', m_first_name = ''Bo'', m_last_name = ''Ray'', m_phone = None\<rparr>]"

definition ex_store :: db where
  "ex_store =
     \<lparr>members = ex_members,
      attendance =
        [\<lparr>att_date = 8891, att_service_type = ''Sunday Morning'', att_member_id = ''m1'',
          att_present = True, att_checked_in_at = 3\<rparr>,
         \<lparr>att_date = 8891, att_service_type = ''Sunday Morning'', att_member_id = ''m2'',
          att_present = True, att_checked_in_at = 3\<rparr>],
      absentee_checkins = [], vimeo_passwords = [], stream_access_codes = [],
      password_rotation_schedule = []\<rparr>"

definition ex_ra_env :: "ra_stmt list \<Rightarrow> ra_env" where
  "ex_ra_env bad =
     \<lparr>ra_date_in = (\<lambda>t. if t = ''2024-05-05'' then Some 8891 else None), ra_now = 7,
      ra_fails = (\<lambda>x. x \<in> set bad)\<rparr>"

definition ex_ra_request :: "string list \<Rightarrow> ra_request" where
  "ex_ra_request ids =
     \<lparr>ra_date = ''2024-05-05T09:30:00.000Z'', ra_serviceType = ''Sunday Morning'',
      ra_attendeeIds = Some ids\<rparr>"

definition ex_code_row :: "nat \<Rightarrow> string \<Rightarrow> bool \<Rightarrow> code_row" where
  "ex_code_row i c rv =
     \<lparr>sc_id = i, sc_code = c, sc_member_name = ''Ann Lee'', sc_phone = Some ''5551234567'',
      sc_absentee_checkin_id = None, sc_expires_at = 100, sc_first_used_at = None,
      sc_last_used_at = None, sc_use_count = 0, sc_revoked = rv\<rparr>"

definition ex_codes :: db where
  "ex_codes =
     ex_store\<lparr>vimeo_passwords :=
                 [\<lparr>vp_video_id = ''987654'', vp_password = ''pw3Kx9Qa'',
                   vp_video_url = Some ''https://vimeo.com/event/987654'', vp_active = True,
                   vp_rotation_type = ''manual'', vp_created_at = 1\<rparr>],
               stream_access_codes :=
                 [ex_code_row 1 ''ABC234'' False, ex_code_row 2 ''XYZ789'' True]\<rparr>"

definition ex_vc_env :: "timestamp \<Rightarrow> timestamp \<Rightarrow> vc_env" where
  "ex_vc_env now ts = \<lparr>vc_now = now, vc_current_timestamp = ts, vc_fails = (\<lambda>x. False)\<rparr>"

definition ex_ci_env :: "(nat \<Rightarrow> nat \<Rightarrow> nat) \<Rightarrow> ci_stmt list \<Rightarrow> ci_env" where
  "ex_ci_env draw bad =
     \<lparr>ci_date_in = (\<lambda>t. if t = ''2024-05-05'' then Some 8891 else None),
      ci_today = ''2024-05-05'', ci_now = 40, ci_randomInt = draw,
      ci_fails = (\<lambda>x. x \<in> set bad), ci_twilio = True, ci_sms_fails = False\<rparr>"

definition ex_ci_request :: "string \<Rightarrow> string \<Rightarrow> ci_request" where
  "ex_ci_request name phone =
     \<lparr>ci_name = name, ci_phone = phone, ci_reason = ''sick'', ci_prayerRequest = None,
      ci_serviceDate = None\<rparr>"

definition ex_rot_env :: "bool \<Rightarrow> rot_env" where
  "ex_rot_env ok =
     \<lparr>rot_VIMEO_VIDEO_ID = ''987654'', rot_VIMEO_ACCESS_TOKEN = True, rot_push_ok = ok,
      rot_entropy = (\<lambda>i. word_of_nat (37 * i + 200)), rot_now = 60,
      rot_fails = (\<lambda>x. False)\<rparr>"

definition ex_rot_request :: rot_request where
  "ex_rot_request = \<lparr>rr_password = [], rr_videoId = [], rr_videoUrl = [], rr_rotationType = []\<rparr>"

definition ex_sundays :: "(date \<times> string) list" where
  "ex_sundays =
       [(8772, ''2024-01-07''),
        (8779, ''2024-01-14''),
        (8786, ''2024-01-21''),
        (8793, ''2024-01-28''),
        (8800, ''2024-02-04''),
        (8807, ''2024-02-11''),
        (8814, ''2024-02-18''),
        (8821, ''2024-02-25''),
        (8828, ''2024-03-03''),
        (8835, ''2024-03-10''),
        (8842, ''2024-03-17''),
        (8849, ''2024-03-24''),
        (8856, ''2024-03-31''),
        (8863, ''2024-04-07''),
        (8870, ''2024-04-14''),
        (8877, ''2024-04-21''),
        (8884, ''2024-04-28''),
        (8891, ''2024-05-05''),
        (8898, ''2024-05-12''),
        (8905, ''2024-05-19'')]"

definition ex_mr_env :: mr_env where
  "ex_mr_env =
     \<lparr>mr_date_in = (\<lambda>t. if t = ''2024-01-01'' then Some 8766
                       else if t = ''2024-05-31'' then Some 8917 else None),
      mr_iso = (\<lambda>d. case map_of ex_sundays d of Some t \<Rightarrow> t | None \<Rightarrow> ''1999-12-31''),
      mr_fails = (\<lambda>x. False)\<rparr>"

text \<open>
  Twenty Sundays with a morning and an evening service each: member \<open>m2\<close> was at all
  forty services, member \<open>m1\<close> at the first twenty-three.
\<close>

definition ex_service :: "nat \<Rightarrow> date \<times> string" where
  "ex_service k = (8772 + 7 * int (k div 2), if even k then ''Sunday Morning'' else ''Sunday Evening'')"

definition ex_attendance :: "att_row list" where
  "ex_attendance =
     map (\<lambda>k. present_row 5 (fst (ex_service k)) (snd (ex_service k)) ''m2'') [0..<40] @
     map (\<lambda>k. present_row 5 (fst (ex_service k)) (snd (ex_service k)) ''m1'') [0..<23]"

definition ex_mr_request :: mr_request where
  "ex_mr_request = \<lparr>mr_memberId = ''m1'', mr_fromDate = ''2024-01-01'', mr_toDate = ''2024-05-31''\<rparr>"

text \<open>The store with the weekly rotation switched on.\<close>

definition ex_scheduled :: db where
  "ex_scheduled =
     ex_codes\<lparr>password_rotation_schedule := [\<lparr>sch_enabled = True, sch_last_run = None\<rparr>]\<rparr>"

section \<open>Properties of the attendance recorder\<close>

lemma upsert_present_fresh:
  assumes "\<forall>r \<in> set tbl. att_date r = d \<and> att_service_type r = st \<longrightarrow> att_member_id r \<in> set touched"
  shows "upsert_present now d st touched ms tbl =
     (if distinct ms \<and> set ms \<inter> set touched = {} then Inr (tbl @ map (present_row now d st) ms)
      else Inl Cardinality_violation)"
  using assms
proof (induction ms arbitrary: touched tbl)
  case Nil
  then show ?case by simp
next
  case (Cons m ms)
  show ?case
  proof (cases "m \<in> set touched")
    case True
    then show ?thesis by simp
  next
    case False
    with Cons.prems have free: "\<not> (\<exists>r \<in> set tbl. att_date r = d \<and> att_service_type r = st \<and> att_member_id r = m)"
      by blast
    have inv: "\<forall>r \<in> set (tbl @ [present_row now d st m]).
        att_date r = d \<and> att_service_type r = st \<longrightarrow> att_member_id r \<in> set (m # touched)"
      using Cons.prems by (auto simp: present_row_def)
    show ?thesis
      using False free Cons.IH [OF inv] by auto
  qed
qed

lemma sql_BEGIN_open:
  "\<exists>w. working (sql_BEGIN s) = Some w \<and> w = current s \<and> committed (sql_BEGIN s) = committed s"
  by (cases "working s") (simp_all add: sql_BEGIN_def current_def)

lemma store_open:
  "working s = Some w \<Longrightarrow> store s D = s\<lparr>working := Some D\<rparr>"
  by (simp add: store_def)

lemma sql_COMMIT_open:
  "working s = Some w \<Longrightarrow> sql_COMMIT s = \<lparr>committed = w, working = None\<rparr>"
  by (simp add: sql_COMMIT_def)

lemma current_open: "working s = Some w \<Longrightarrow> current s = w"
  by (simp add: current_def)

text \<open>The insert statement on a table that holds no row of the service occurrence.\<close>

lemma insert_attendance_after_delete:
  assumes "rows_for d st D = []"
  shows "insert_attendance now d st ids D =
     (if \<exists>m \<in> set ids. m \<notin> m_id ` set (members D) then Inl Foreign_key_violation
      else if distinct ids then Inr (D\<lparr>attendance := attendance D @ map (present_row now d st) ids\<rparr>, length ids)
      else Inl Cardinality_violation)"
proof -
  have "\<forall>r \<in> set (attendance D). att_date r = d \<and> att_service_type r = st \<longrightarrow> att_member_id r \<in> set []"
    using assms by (auto simp: rows_for_def filter_empty_conv)
  from upsert_present_fresh [OF this]
  show ?thesis by (simp add: insert_attendance_def)
qed

lemma rows_for_delete: "rows_for d st (fst (delete_attendance d st D)) = []"
  by (simp add: rows_for_def delete_attendance_def)

lemma members_delete: "members (fst (delete_attendance d st D)) = members D"
  by (simp add: delete_attendance_def)

lemma rows_for_present: "rows_for d st (D\<lparr>attendance := attendance D @ map (present_row now d st) ids\<rparr>)
   = rows_for d st D @ map (present_row now d st) ids"
  by (simp add: rows_for_def present_row_def)

text \<open>The statements after a successful \<open>BEGIN\<close>, on the open transaction.\<close>

lemma record_attendance_run:
  fixes E :: ra_env and s0 :: session and rq :: ra_request
  assumes rq: "ra_attendeeIds rq = Some P" "ra_date rq \<noteq> []" "ra_serviceType rq \<noteq> []"
  defines "nd \<equiv> split_T (ra_date rq)" and "st \<equiv> ra_serviceType rq"
  defines "s1 \<equiv> sql_BEGIN s0"
  shows "record_attendance E s0 rq =
    (if ra_fails E Ra_begin then ra_catch E Other_error [s0]
     else if ra_fails E Ra_delete then ra_catch E Other_error [s0, s1]
     else case ra_date_in E nd of None \<Rightarrow> ra_catch E Invalid_datetime [s0, s1]
     | Some d \<Rightarrow>
       let D2 = fst (delete_attendance d st (current s0)); n = snd (delete_attendance d st (current s0));
           s2 = s1\<lparr>working := Some D2\<rparr>;
           D3 = D2\<lparr>attendance := attendance D2 @ map (present_row (ra_now E) d st) P\<rparr>;
           s3 = s1\<lparr>working := Some D3\<rparr> in
       if P \<noteq> [] \<and> ra_fails E Ra_insert then ra_catch E Other_error [s0, s1, s2]
       else if \<exists>m \<in> set P. m \<notin> m_id ` set (members (current s0))
         then ra_catch E Foreign_key_violation [s0, s1, s2]
       else if \<not> distinct P then ra_catch E Cardinality_violation [s0, s1, s2]
       else if ra_fails E Ra_commit then ra_catch E Other_error [s0, s1, s2, s3]
       else (Inr (Ra_recorded nd st (length P) n),
             [s0, s1, s2, s3, \<lparr>committed = D3, working = None\<rparr>]))"
proof -
  obtain w where w: "working s1 = Some w" "w = current s0" "committed s1 = committed s0"
    unfolding s1_def using sql_BEGIN_open by blast
  show ?thesis
  proof (cases "ra_fails E Ra_begin \<or> ra_fails E Ra_delete \<or> ra_date_in E nd = None")
    case True
    then show ?thesis
      using rq by (auto simp: record_attendance_def ra_BEGIN_def ra_DELETE_def nd_def st_def s1_def Let_def)
  next
    case False
    then obtain d where d: "ra_date_in E nd = Some d" by auto
    define D2 where "D2 = fst (delete_attendance d st (current s0))"
    define n where "n = snd (delete_attendance d st (current s0))"
    define s2 where "s2 = s1\<lparr>working := Some D2\<rparr>"
    define D3 where "D3 = D2\<lparr>attendance := attendance D2 @ map (present_row (ra_now E) d st) P\<rparr>"
    have del: "ra_DELETE E nd st s1 = Inr (s2, n)"
      using False d w by (simp add: ra_DELETE_def current_open store_open s2_def D2_def n_def split: prod.splits)
    have s2: "working s2 = Some D2" "current s2 = D2" by (simp_all add: s2_def current_def)
    have ins0: "insert_attendance (ra_now E) d st P D2 =
       (if \<exists>m \<in> set P. m \<notin> m_id ` set (members (current s0)) then Inl Foreign_key_violation
        else if distinct P then Inr (D3, length P) else Inl Cardinality_violation)"
      using insert_attendance_after_delete [of d st D2 "ra_now E" P]
      by (simp add: D2_def rows_for_delete members_delete D3_def)
    have ins: "(if P \<noteq> [] then ra_INSERT E nd st P s2 else Inr (s2, 0)) =
       (if P \<noteq> [] \<and> ra_fails E Ra_insert then Inl Other_error
        else if \<exists>m \<in> set P. m \<notin> m_id ` set (members (current s0)) then Inl Foreign_key_violation
        else if distinct P then Inr (s1\<lparr>working := Some D3\<rparr>, length P) else Inl Cardinality_violation)"
    proof (cases "P = []")
      case True
      then show ?thesis by (simp add: s2_def D3_def)
    next
      case False
      then show ?thesis
        using d s2 ins0 by (simp add: ra_INSERT_def store_open s2_def)
    qed
    have com: "ra_COMMIT E (s1\<lparr>working := Some D\<rparr>) =
       (if ra_fails E Ra_commit then Inl Other_error else Inr \<lparr>committed = D, working = None\<rparr>)" for D
      by (simp add: ra_COMMIT_def sql_COMMIT_def)
    have beg: "ra_BEGIN E s0 = Inr s1"
      using False by (simp add: ra_BEGIN_def s1_def)
    note defs = nd_def st_def s2_def D2_def n_def D3_def
    show ?thesis
      using False rq d
      unfolding record_attendance_def Let_def
      by (simp add: beg del [unfolded defs] ins [unfolded defs] com nd_def st_def)
  qed
qed

lemma record_attendance_validated:
  assumes "fst (record_attendance E s0 rq) \<noteq> Inr Ra_missing_fields"
  shows "\<exists>P. ra_attendeeIds rq = Some P \<and> ra_date rq \<noteq> [] \<and> ra_serviceType rq \<noteq> []"
  using assms by (auto simp: record_attendance_def split: option.splits if_splits)

lemma present_row_fields:
  "att_member_id (present_row now d st m) = m" "att_present (present_row now d st m)"
  "att_date (present_row now d st m) = d" "att_service_type (present_row now d st m) = st"
  by (simp_all add: present_row_def)

text \<open>
  Claim C1. When \<open>recordAttendance\<close> answers 200, the attendance rows of the service
  occurrence (the date with its time part cut off, and the service type) are, in the
  state every reader sees after the call, exactly one row per member of the present-list
  \<open>P\<close>: the member ids of the rows are \<open>P\<close>, in which no member is twice, and every one of
  the rows has \<open>present = true\<close> and is a row of the occurrence. The rows are given by
  \<open>P\<close> and the check-in timestamp alone, whatever the store held before the call: the
  same \<open>P\<close> sent again gives the same rows, and an empty \<open>P\<close> gives none.
\<close>

theorem record_attendance_replaces:
  assumes ok: "fst (record_attendance E s0 rq) = Inr resp" "ra_status resp = 200"
  shows "\<exists>d P. ra_attendeeIds rq = Some P \<and> ra_date_in E (split_T (ra_date rq)) = Some d \<and>
           distinct P \<and>
           map att_member_id
             (rows_for d (ra_serviceType rq) (committed (last (snd (record_attendance E s0 rq))))) = P \<and>
           (\<forall>r \<in> set (rows_for d (ra_serviceType rq)
                        (committed (last (snd (record_attendance E s0 rq))))).
              att_present r \<and> att_date r = d \<and> att_service_type r = ra_serviceType rq \<and>
              att_member_id r \<in> set P) \<and>
           (P = [] \<longrightarrow>
              rows_for d (ra_serviceType rq) (committed (last (snd (record_attendance E s0 rq)))) = []) \<and>
           rows_for d (ra_serviceType rq) (committed (last (snd (record_attendance E s0 rq))))
             = map (\<lambda>m. \<lparr>att_date = d, att_service_type = ra_serviceType rq, att_member_id = m,
                          att_present = True, att_checked_in_at = ra_now E\<rparr>) P"
proof -
  from ok have "fst (record_attendance E s0 rq) \<noteq> Inr Ra_missing_fields" by auto
  then obtain P where rq: "ra_attendeeIds rq = Some P" "ra_date rq \<noteq> []" "ra_serviceType rq \<noteq> []"
    using record_attendance_validated by blast
  note run = record_attendance_run [OF rq, of E s0]
  from ok obtain d where d: "ra_date_in E (split_T (ra_date rq)) = Some d"
    by (cases "ra_date_in E (split_T (ra_date rq))")
       (auto simp: run ra_catch_def split: if_splits)
  have dist: "distinct P"
    using ok d by (auto simp: run ra_catch_def Let_def split: if_splits)
  let ?rows = "rows_for d (ra_serviceType rq) (committed (last (snd (record_attendance E s0 rq))))"
  have rows: "?rows = map (present_row (ra_now E) d (ra_serviceType rq)) P"
    using ok d
    by (auto simp: run ra_catch_def Let_def rows_for_present rows_for_delete split: if_splits)
  have ids: "map att_member_id ?rows = P"
    unfolding rows by (simp add: present_row_fields comp_def)
  have each: "\<forall>r \<in> set ?rows. att_present r \<and> att_date r = d \<and>
      att_service_type r = ra_serviceType rq \<and> att_member_id r \<in> set P"
    unfolding rows by (auto simp: present_row_fields)
  have none: "P = [] \<longrightarrow> ?rows = []"
    unfolding rows by simp
  have full: "?rows = map (\<lambda>m. \<lparr>att_date = d, att_service_type = ra_serviceType rq, att_member_id = m,
                          att_present = True, att_checked_in_at = ra_now E\<rparr>) P"
    unfolding rows by (simp add: present_row_def)
  from rq d dist ids each none full show ?thesis by blast
qed

theorem record_attendance_replaces_witness:
  "map_sum id ra_status (fst (record_attendance (ex_ra_env []) \<lparr>committed = ex_store, working = None\<rparr>
      (ex_ra_request [''m1'']))) = Inr 200 \<and>
   map att_member_id (rows_for 8891 ''Sunday Morning'' ex_store) = [''m1'', ''m2''] \<and>
   map att_member_id (rows_for 8891 ''Sunday Morning''
     (committed (last (snd (record_attendance (ex_ra_env []) \<lparr>committed = ex_store, working = None\<rparr>
        (ex_ra_request [''m1'']))))))
     = [''m1''] \<and>
   map att_present (rows_for 8891 ''Sunday Morning''
     (committed (last (snd (record_attendance (ex_ra_env []) \<lparr>committed = ex_store, working = None\<rparr>
        (ex_ra_request [''m1'']))))))
     = [True]"
proof -
  let ?run = "record_attendance (ex_ra_env []) \<lparr>committed = ex_store, working = None\<rparr>
      (ex_ra_request [''m1''])"
  have ok: "fst ?run = Inr (Ra_recorded ''2024-05-05'' ''Sunday Morning'' 1 2)"
    by code_simp
  have st: "ra_status (Ra_recorded ''2024-05-05'' ''Sunday Morning'' 1 2) = 200" by simp
  have before: "map att_member_id (rows_for 8891 ''Sunday Morning'' ex_store) = [''m1'', ''m2'']"
    by code_simp
  from record_attendance_replaces [OF ok st] obtain d P where
    P: "ra_attendeeIds (ex_ra_request [''m1'']) = Some P"
    and d: "ra_date_in (ex_ra_env []) (split_T (ra_date (ex_ra_request [''m1'']))) = Some d"
    and ids: "map att_member_id
        (rows_for d (ra_serviceType (ex_ra_request [''m1''])) (committed (last (snd ?run)))) = P"
    and each: "\<forall>r \<in> set (rows_for d (ra_serviceType (ex_ra_request [''m1'']))
        (committed (last (snd ?run)))). att_present r \<and> att_date r = d \<and>
          att_service_type r = ra_serviceType (ex_ra_request [''m1'']) \<and> att_member_id r \<in> set P"
    by blast
  from P have P': "P = [''m1'']" by (simp add: ex_ra_request_def)
  from d have d': "d = 8891"
    by (simp add: ex_ra_request_def ex_ra_env_def split_T_def split: if_splits)
  have s: "ra_serviceType (ex_ra_request [''m1'']) = ''Sunday Morning''"
    by (simp add: ex_ra_request_def)
  from ids have ids': "map att_member_id (rows_for 8891 ''Sunday Morning'' (committed (last (snd ?run))))
      = [''m1'']"
    unfolding P' d' s .
  from each have "\<forall>r \<in> set (rows_for 8891 ''Sunday Morning'' (committed (last (snd ?run)))). att_present r"
    unfolding d' s by blast
  then have "map att_present (rows_for 8891 ''Sunday Morning'' (committed (last (snd ?run))))
      = replicate (length (rows_for 8891 ''Sunday Morning'' (committed (last (snd ?run))))) True"
    by (simp add: map_replicate_const [symmetric] cong: map_cong)
  moreover from ids' have "length (rows_for 8891 ''Sunday Morning'' (committed (last (snd ?run)))) = 1"
    by (metis length_map length_Cons list.size(3) One_nat_def)
  ultimately have pres: "map att_present (rows_for 8891 ''Sunday Morning'' (committed (last (snd ?run))))
      = [True]"
    by simp
  from ok before ids' pres show ?thesis by simp
qed

text \<open>
  What the transaction guarantees. For a request that passes the field check, the
  \<open>catch\<close> block runs exactly when one of \<open>BEGIN\<close>, \<open>DELETE\<close>, \<open>INSERT\<close>, \<open>COMMIT\<close>
  raises: by a failure from outside, a text that is no date, a member id the member
  table does not hold, or a member id sent twice. Then the state readers see is the
  state before the call at every moment of the call; the handler answers 500 with the
  transaction closed when its \<open>ROLLBACK\<close> goes through, and throws when the \<open>ROLLBACK\<close>
  raises as well. Whatever the outcome, no state before the last one differs from the
  state before the call: the rows deleted inside the transaction are never seen missing.
\<close>

lemma record_attendance_atomic:
  fixes E :: ra_env and s0 :: session and rq :: ra_request and P :: "string list"
  assumes rq: "ra_attendeeIds rq = Some P" "ra_date rq \<noteq> []" "ra_serviceType rq \<noteq> []"
  defines "raised \<equiv> ra_fails E Ra_begin \<or> ra_fails E Ra_delete \<or>
      ra_date_in E (split_T (ra_date rq)) = None \<or> (P \<noteq> [] \<and> ra_fails E Ra_insert) \<or>
      (\<exists>m \<in> set P. m \<notin> m_id ` set (members (current s0))) \<or> \<not> distinct P \<or> ra_fails E Ra_commit"
  shows "raised \<longleftrightarrow> \<not> (\<exists>n k. fst (record_attendance E s0 rq)
            = Inr (Ra_recorded (split_T (ra_date rq)) (ra_serviceType rq) n k))"
    and "raised \<Longrightarrow> \<forall>s \<in> set (snd (record_attendance E s0 rq)). committed s = committed s0"
    and "raised \<Longrightarrow> \<not> ra_fails E Ra_rollback \<Longrightarrow>
           (\<exists>e. fst (record_attendance E s0 rq) = Inr (Ra_failed e)) \<and>
           working (last (snd (record_attendance E s0 rq))) = None"
    and "raised \<Longrightarrow> ra_fails E Ra_rollback \<Longrightarrow> fst (record_attendance E s0 rq) = Inl Other_error"
    and "\<forall>s \<in> set (butlast (snd (record_attendance E s0 rq))). committed s = committed s0"
proof -
  note run = record_attendance_run [OF rq, of E s0]
  have w: "committed (sql_BEGIN s0) = committed s0"
    using sql_BEGIN_open by blast
  show "raised \<longleftrightarrow> \<not> (\<exists>n k. fst (record_attendance E s0 rq)
            = Inr (Ra_recorded (split_T (ra_date rq)) (ra_serviceType rq) n k))"
    unfolding raised_def
    by (cases "ra_date_in E (split_T (ra_date rq))") (auto simp: run ra_catch_def Let_def)
  show "raised \<Longrightarrow> \<forall>s \<in> set (snd (record_attendance E s0 rq)). committed s = committed s0"
    unfolding raised_def using w
    by (cases "ra_date_in E (split_T (ra_date rq))")
       (auto simp: run ra_catch_def Let_def sql_ROLLBACK_def split: if_splits)
  show "raised \<Longrightarrow> \<not> ra_fails E Ra_rollback \<Longrightarrow>
           (\<exists>e. fst (record_attendance E s0 rq) = Inr (Ra_failed e)) \<and>
           working (last (snd (record_attendance E s0 rq))) = None"
    unfolding raised_def
    by (cases "ra_date_in E (split_T (ra_date rq))")
       (auto simp: run ra_catch_def Let_def sql_ROLLBACK_def split: if_splits)
  show "raised \<Longrightarrow> ra_fails E Ra_rollback \<Longrightarrow> fst (record_attendance E s0 rq) = Inl Other_error"
    unfolding raised_def
    by (cases "ra_date_in E (split_T (ra_date rq))")
       (auto simp: run ra_catch_def Let_def split: if_splits)
  show "\<forall>s \<in> set (butlast (snd (record_attendance E s0 rq))). committed s = committed s0"
    using w
    by (cases "ra_date_in E (split_T (ra_date rq))")
       (auto simp: run ra_catch_def Let_def sql_ROLLBACK_def split: if_splits)
qed

text \<open>
  Claim C3. The rollback holds, the error response does not always. A request to record
  \<open>m1\<close> as present, on a connection that is lost after \<open>BEGIN\<close>: the \<open>DELETE\<close> raises,
  the \<open>catch\<close> block sends \<open>ROLLBACK\<close>, which raises too, and the handler throws that
  error instead of returning its 500 response. The attendance table readers see is the
  one before the call throughout. With the \<open>ROLLBACK\<close> answered, the same failing
  \<open>DELETE\<close> is reported with status 500.
\<close>

theorem record_attendance_rollback_throws:
  "fst (record_attendance (ex_ra_env [Ra_delete, Ra_rollback]) \<lparr>committed = ex_store, working = None\<rparr>
      (ex_ra_request [''m1''])) = Inl Other_error \<and>
   map committed (snd (record_attendance (ex_ra_env [Ra_delete, Ra_rollback])
      \<lparr>committed = ex_store, working = None\<rparr> (ex_ra_request [''m1'']))) = [ex_store, ex_store] \<and>
   fst (record_attendance (ex_ra_env [Ra_delete]) \<lparr>committed = ex_store, working = None\<rparr>
      (ex_ra_request [''m1''])) = Inr (Ra_failed Other_error) \<and>
   ra_status (Ra_failed Other_error) = 500 \<and>
   map committed (snd (record_attendance (ex_ra_env [Ra_delete])
      \<lparr>committed = ex_store, working = None\<rparr> (ex_ra_request [''m1''])))
     = [ex_store, ex_store, ex_store]"
  by code_simp

section \<open>Properties of access code verification\<close>

lemma find_as_filter: "find P xs = (case filter P xs of [] \<Rightarrow> None | x # _ \<Rightarrow> Some x)"
  by (induction xs) auto

lemma sc_code_mark_used [simp]: "sc_code (mark_used ts r) = sc_code r"
  and sc_id_mark_used [simp]: "sc_id (mark_used ts r) = sc_id r"
  by (simp_all add: mark_used_def)

lemma find_code_map:
  assumes "\<And>r. sc_code (f r) = sc_code r"
  shows "find (\<lambda>r. sc_code r = c) (map f tbl) = map_option f (find (\<lambda>r. sc_code r = c) tbl)"
  using assms by (induction tbl) auto

lemma find_code_update:
  "find (\<lambda>r. sc_code r = c) (map (\<lambda>r. if sc_id r = i then mark_used ts r else r) tbl)
   = map_option (\<lambda>r. if sc_id r = i then mark_used ts r else r) (find (\<lambda>r. sc_code r = c) tbl)"
  by (rule find_code_map) simp

lemma ids_update:
  "map sc_id (map (\<lambda>r. if sc_id r = i then mark_used ts r else r) tbl) = map sc_id tbl"
  by (induction tbl) auto

lemma distinct_ids_same_row:
  assumes "distinct (map sc_id tbl)" "r \<in> set tbl" "r' \<in> set tbl" "sc_id r = sc_id r'"
  shows "r = r'"
  using assms by (meson distinct_map inj_on_def)

lemma find_in_set: "find P xs = Some x \<Longrightarrow> x \<in> set xs \<and> P x"
  by (induction xs) (auto split: if_splits)

text \<open>The two ways a call can end: with the store untouched, or with status 200.\<close>

lemma verify_stream_code_cases:
  obtains (rejected) "\<not> is_valid (fst (verify_stream_code E D code))"
      "snd (verify_stream_code E D code) = D"
  | (accepted) a rest v where
      "length code = 6" "\<not> vc_fails E Vc_lookup" "\<not> vc_fails E Vc_active" "\<not> vc_fails E Vc_update"
      "select_code (toUpperCase code) D = a # rest" "\<not> sc_revoked a"
      "\<not> vc_now E > sc_expires_at a" "active_password D = Some v"
      "verify_stream_code E D code =
         (Vc_valid \<lparr>memberName = sc_member_name a, videoId = vp_video_id v,
                    videoUrl = vp_video_url v, password = vp_password v,
                    expiresAt = sc_expires_at a\<rparr>,
          D\<lparr>stream_access_codes :=
              map (\<lambda>r. if sc_id r = sc_id a then mark_used (vc_current_timestamp E) r else r)
                (stream_access_codes D)\<rparr>)"
proof (cases "code = [] \<or> length code \<noteq> 6 \<or> vc_fails E Vc_lookup")
  case True
  then show ?thesis
    by (intro rejected) (auto simp: verify_stream_code_def Let_def)
next
  case pre: False
  show ?thesis
  proof (cases "select_code (toUpperCase code) D")
    case Nil
    with pre show ?thesis
      by (intro rejected) (simp_all add: verify_stream_code_def Let_def)
  next
    case (Cons a rest)
    show ?thesis
    proof (cases "sc_revoked a \<or> vc_now E > sc_expires_at a \<or> vc_fails E Vc_active")
      case True
      with pre Cons show ?thesis
        by (intro rejected) (auto simp: verify_stream_code_def Let_def)
    next
      case chk: False
      show ?thesis
      proof (cases "active_password D")
        case None
        with pre Cons chk show ?thesis
          by (intro rejected) (simp_all add: verify_stream_code_def Let_def)
      next
        case (Some v)
        show ?thesis
        proof (cases "vc_fails E Vc_update \<or>
            (\<exists>r \<in> set (stream_access_codes D). sc_id r = sc_id a \<and> sc_use_count r + 1 > 2147483647)")
          case True
          with pre Cons chk Some show ?thesis
            by (intro rejected) (auto simp: verify_stream_code_def Let_def update_usage_def)
        next
          case False
          with pre Cons chk Some show ?thesis
            by (intro accepted [of a rest v]) (simp_all add: verify_stream_code_def Let_def update_usage_def)
        qed
      qed
    qed
  qed
qed

lemma verify_stream_code_ids:
  "map sc_id (stream_access_codes (snd (verify_stream_code E D code))) = map sc_id (stream_access_codes D)"
  by (rule verify_stream_code_cases [of E D code]) (simp_all add: ids_update)

lemma verify_stream_code_row:
  assumes ids: "distinct (map sc_id (stream_access_codes D))"
    and row: "find (\<lambda>r. sc_code r = c) (stream_access_codes D) = Some r"
  shows "find (\<lambda>r. sc_code r = c) (stream_access_codes (snd (verify_stream_code E D code)))
     = Some (if is_valid (fst (verify_stream_code E D code)) \<and> toUpperCase code = c
             then mark_used (vc_current_timestamp E) r else r)"
proof (cases rule: verify_stream_code_cases [of E D code])
  case rejected
  with row show ?thesis by simp
next
  case (accepted a rest v)
  from accepted(5) have a: "find (\<lambda>r. sc_code r = toUpperCase code) (stream_access_codes D) = Some a"
    by (simp add: find_as_filter select_code_def)
  have "(sc_id r = sc_id a) = (toUpperCase code = c)"
  proof
    assume "sc_id r = sc_id a"
    with ids find_in_set [OF row] find_in_set [OF a] have "r = a"
      using distinct_ids_same_row by blast
    with find_in_set [OF row] find_in_set [OF a] show "toUpperCase code = c" by simp
  next
    assume "toUpperCase code = c"
    with row a show "sc_id r = sc_id a" by simp
  qed
  with row show ?thesis
    by (simp add: accepted(9) find_code_update)
qed

lemma verify_all_row:
  assumes "distinct (map sc_id (stream_access_codes D))"
    and "find (\<lambda>r. sc_code r = c) (stream_access_codes D) = Some r"
  shows "find (\<lambda>r. sc_code r = c) (stream_access_codes (verify_all D calls))
     = Some (r\<lparr>sc_first_used_at :=
                (case sc_first_used_at r of
                   Some t \<Rightarrow> Some t
                 | None \<Rightarrow> (case validations c D calls of [] \<Rightarrow> None | t # _ \<Rightarrow> Some t)),
              sc_last_used_at :=
                (if validations c D calls = [] then sc_last_used_at r
                 else Some (last (validations c D calls))),
              sc_use_count := sc_use_count r + int (length (validations c D calls))\<rparr>)"
  using assms
proof (induction calls arbitrary: D r)
  case Nil
  then show ?case by (cases "sc_first_used_at r") simp_all
next
  case (Cons call calls)
  obtain E code where call: "call = (E, code)" by (cases call)
  let ?D = "snd (verify_stream_code E D code)"
  let ?hit = "is_valid (fst (verify_stream_code E D code)) \<and> toUpperCase code = c"
  let ?r = "if ?hit then mark_used (vc_current_timestamp E) r else r"
  have ids: "distinct (map sc_id (stream_access_codes ?D))"
    using Cons.prems(1) by (simp add: verify_stream_code_ids)
  have row: "find (\<lambda>r. sc_code r = c) (stream_access_codes ?D) = Some ?r"
    using verify_stream_code_row [OF Cons.prems] .
  note IH = Cons.IH [OF ids row]
  show ?case
  proof (cases ?hit)
    case True
    then have r: "?r = mark_used (vc_current_timestamp E) r"
      and v: "validations c D (call # calls) = vc_current_timestamp E # validations c ?D calls"
      by (simp_all add: call)
    show ?thesis
      unfolding v using IH [unfolded r]
      by (simp add: call mark_used_def coalesce_def split: option.splits list.splits)
  next
    case False
    then have r: "?r = r"
      and v: "validations c D (call # calls) = validations c ?D calls"
      by (auto simp: call)
    show ?thesis
      unfolding v using IH [unfolded r] by (simp add: call)
  qed
qed


text \<open>
  Claim C4, amended. A code of six characters is upper-cased and looked up; when the
  store answers the lookup, the checks come in the order existence, revoked flag,
  expiry, active livestream password: no row gives \<open>Vc_not_found\<close>, a revoked row
  \<open>Vc_revoked\<close> whatever its expiry, a row past \<open>expires_at\<close> \<open>Vc_expired\<close>, and no
  active password \<open>Vc_no_active_stream\<close>, each with the store untouched. Credentials are
  returned only when all four checks pass, and they are returned then if the usage
  update goes through. (An input of another length is answered \<open>Vc_invalid_format\<close>
  before any lookup.)
\<close>

theorem verify_stream_code_order:
  assumes len: "length code = 6" and lookup: "\<not> vc_fails E Vc_lookup"
  shows "(select_code (toUpperCase code) D = [] \<longrightarrow>
            verify_stream_code E D code = (Vc_not_found, D))
       \<and> (\<forall>a rest. select_code (toUpperCase code) D = a # rest \<longrightarrow>
            (sc_revoked a \<longrightarrow> verify_stream_code E D code = (Vc_revoked, D)) \<and>
            (\<not> sc_revoked a \<and> vc_now E > sc_expires_at a \<longrightarrow>
               verify_stream_code E D code = (Vc_expired, D)) \<and>
            (\<not> sc_revoked a \<and> \<not> vc_now E > sc_expires_at a \<and> \<not> vc_fails E Vc_active \<and>
             active_password D = None \<longrightarrow>
               verify_stream_code E D code = (Vc_no_active_stream, D)) \<and>
            (\<forall>v. \<not> sc_revoked a \<and> \<not> vc_now E > sc_expires_at a \<and> \<not> vc_fails E Vc_active \<and>
             active_password D = Some v \<and> \<not> vc_fails E Vc_update \<and>
             (\<forall>r \<in> set (stream_access_codes D). sc_id r = sc_id a \<longrightarrow> sc_use_count r < 2147483647) \<longrightarrow>
               fst (verify_stream_code E D code) =
                 Vc_valid \<lparr>memberName = sc_member_name a, videoId = vp_video_id v,
                           videoUrl = vp_video_url v, password = vp_password v,
                           expiresAt = sc_expires_at a\<rparr>))
       \<and> (\<forall>cr. fst (verify_stream_code E D code) = Vc_valid cr \<longrightarrow>
            (\<exists>a rest v. select_code (toUpperCase code) D = a # rest \<and> \<not> sc_revoked a \<and>
               \<not> vc_now E > sc_expires_at a \<and> active_password D = Some v \<and>
               cr = \<lparr>memberName = sc_member_name a, videoId = vp_video_id v,
                      videoUrl = vp_video_url v, password = vp_password v,
                      expiresAt = sc_expires_at a\<rparr>))"
proof -
  from len have ne: "code \<noteq> []" by auto
  have 1: "select_code (toUpperCase code) D = [] \<longrightarrow>
      verify_stream_code E D code = (Vc_not_found, D)"
    using len ne lookup by (simp add: verify_stream_code_def Let_def)
  have 2: "\<forall>a rest. select_code (toUpperCase code) D = a # rest \<longrightarrow>
            (sc_revoked a \<longrightarrow> verify_stream_code E D code = (Vc_revoked, D)) \<and>
            (\<not> sc_revoked a \<and> vc_now E > sc_expires_at a \<longrightarrow>
               verify_stream_code E D code = (Vc_expired, D)) \<and>
            (\<not> sc_revoked a \<and> \<not> vc_now E > sc_expires_at a \<and> \<not> vc_fails E Vc_active \<and>
             active_password D = None \<longrightarrow>
               verify_stream_code E D code = (Vc_no_active_stream, D)) \<and>
            (\<forall>v. \<not> sc_revoked a \<and> \<not> vc_now E > sc_expires_at a \<and> \<not> vc_fails E Vc_active \<and>
             active_password D = Some v \<and> \<not> vc_fails E Vc_update \<and>
             (\<forall>r \<in> set (stream_access_codes D). sc_id r = sc_id a \<longrightarrow> sc_use_count r < 2147483647) \<longrightarrow>
               fst (verify_stream_code E D code) =
                 Vc_valid \<lparr>memberName = sc_member_name a, videoId = vp_video_id v,
                           videoUrl = vp_video_url v, password = vp_password v,
                           expiresAt = sc_expires_at a\<rparr>)"
    using len ne lookup
    by (auto simp: verify_stream_code_def Let_def update_usage_def)
  have 3: "\<forall>cr. fst (verify_stream_code E D code) = Vc_valid cr \<longrightarrow>
            (\<exists>a rest v. select_code (toUpperCase code) D = a # rest \<and> \<not> sc_revoked a \<and>
               \<not> vc_now E > sc_expires_at a \<and> active_password D = Some v \<and>
               cr = \<lparr>memberName = sc_member_name a, videoId = vp_video_id v,
                      videoUrl = vp_video_url v, password = vp_password v,
                      expiresAt = sc_expires_at a\<rparr>)"
    by (rule verify_stream_code_cases [of E D code]) auto
  from 1 2 3 show ?thesis by blast
qed

theorem verify_stream_code_order_witness:
  "verify_stream_code (ex_vc_env 50 51) ex_codes ''xyz789'' = (Vc_revoked, ex_codes) \<and>
   verify_stream_code (ex_vc_env 150 151) ex_codes ''abc234'' = (Vc_expired, ex_codes)"
proof -
  have len: "length ''xyz789'' = 6" "length ''abc234'' = 6" by simp_all
  have ok: "\<not> vc_fails (ex_vc_env 50 51) Vc_lookup" "\<not> vc_fails (ex_vc_env 150 151) Vc_lookup"
    by (simp_all add: ex_vc_env_def)
  have sel: "select_code (toUpperCase ''xyz789'') ex_codes = [ex_code_row 2 ''XYZ789'' True]"
      "select_code (toUpperCase ''abc234'') ex_codes = [ex_code_row 1 ''ABC234'' False]"
    by code_simp+
  have f: "sc_revoked (ex_code_row 2 ''XYZ789'' True)"
      "\<not> sc_revoked (ex_code_row 1 ''ABC234'' False)"
      "vc_now (ex_vc_env 150 151) > sc_expires_at (ex_code_row 1 ''ABC234'' False)"
    by (simp_all add: ex_code_row_def ex_vc_env_def)
  from verify_stream_code_order [OF len(1) ok(1), of ex_codes] sel(1) f(1)
  have "verify_stream_code (ex_vc_env 50 51) ex_codes ''xyz789'' = (Vc_revoked, ex_codes)"
    by blast
  moreover from verify_stream_code_order [OF len(2) ok(2), of ex_codes] sel(2) f(2,3)
  have "verify_stream_code (ex_vc_env 150 151) ex_codes ''abc234'' = (Vc_expired, ex_codes)"
    by blast
  ultimately show ?thesis by simp
qed

theorem verify_stream_code_short_input:
  "select_code (toUpperCase ''ABC'') ex_codes = [] \<and>
   verify_stream_code (ex_vc_env 50 51) ex_codes ''ABC'' = (Vc_invalid_format, ex_codes) \<and>
   vc_status (fst (verify_stream_code (ex_vc_env 50 51) ex_codes ''ABC'')) = 400"
  by code_simp

text \<open>
  Claim C5. Through any sequence of verification calls (any inputs, clocks and store
  failures), on a table whose \<open>id\<close>s are distinct, the row of a code \<open>c\<close> keeps its
  place and changes in three columns only: \<open>use_count\<close> grows by the number of
  successful validations of \<open>c\<close> in the sequence, one for each, so it never decreases;
  \<open>first_used_at\<close>, once set, stays, and a \<open>NULL\<close> becomes the timestamp of the first
  successful validation; \<open>last_used_at\<close> is the timestamp of the most recent one.
\<close>

theorem verify_all_usage:
  assumes "distinct (map sc_id (stream_access_codes D))"
    and "find (\<lambda>r. sc_code r = c) (stream_access_codes D) = Some r"
  shows "\<exists>r'. find (\<lambda>r. sc_code r = c) (stream_access_codes (verify_all D calls)) = Some r' \<and>
           sc_use_count r' = sc_use_count r + int (length (validations c D calls)) \<and>
           sc_use_count r \<le> sc_use_count r' \<and>
           sc_first_used_at r' =
             (case sc_first_used_at r of
                Some t \<Rightarrow> Some t
              | None \<Rightarrow> (case validations c D calls of [] \<Rightarrow> None | t # _ \<Rightarrow> Some t)) \<and>
           sc_last_used_at r' =
             (if validations c D calls = [] then sc_last_used_at r
              else Some (last (validations c D calls)))"
  by (simp add: verify_all_row [OF assms])

theorem verify_all_usage_witness:
  "validations ''ABC234'' ex_codes
     [(ex_vc_env 10 11, ''abc234''), (ex_vc_env 20 21, ''ABC234''), (ex_vc_env 30 31, ''ABC234'')]
     = [11, 21, 31] \<and>
   map_option sc_use_count (find (\<lambda>r. sc_code r = ''ABC234'') (stream_access_codes (verify_all ex_codes
     [(ex_vc_env 10 11, ''abc234''), (ex_vc_env 20 21, ''ABC234''), (ex_vc_env 30 31, ''ABC234'')])))
     = Some 3 \<and>
   map_option sc_first_used_at (find (\<lambda>r. sc_code r = ''ABC234'') (stream_access_codes (verify_all ex_codes
     [(ex_vc_env 10 11, ''abc234''), (ex_vc_env 20 21, ''ABC234''), (ex_vc_env 30 31, ''ABC234'')])))
     = Some (Some 11) \<and>
   map_option sc_last_used_at (find (\<lambda>r. sc_code r = ''ABC234'') (stream_access_codes (verify_all ex_codes
     [(ex_vc_env 10 11, ''abc234''), (ex_vc_env 20 21, ''ABC234''), (ex_vc_env 30 31, ''ABC234'')])))
     = Some (Some 31)"
proof -
  let ?calls = "[(ex_vc_env 10 11, ''abc234''), (ex_vc_env 20 21, ''ABC234''), (ex_vc_env 30 31, ''ABC234'')]"
  have ids: "distinct (map sc_id (stream_access_codes ex_codes))" by code_simp
  have row: "find (\<lambda>r. sc_code r = ''ABC234'') (stream_access_codes ex_codes)
      = Some (ex_code_row 1 ''ABC234'' False)"
    by code_simp
  have v: "validations ''ABC234'' ex_codes ?calls = [11, 21, 31]" by code_simp
  have r: "sc_use_count (ex_code_row 1 ''ABC234'' False) = 0"
      "sc_first_used_at (ex_code_row 1 ''ABC234'' False) = None"
    by (simp_all add: ex_code_row_def)
  from verify_all_usage [OF ids row, of ?calls] obtain r' where
    f: "find (\<lambda>r. sc_code r = ''ABC234'') (stream_access_codes (verify_all ex_codes ?calls)) = Some r'"
    and u: "sc_use_count r' = sc_use_count (ex_code_row 1 ''ABC234'' False)
        + int (length (validations ''ABC234'' ex_codes ?calls))"
    and a: "sc_first_used_at r' =
             (case sc_first_used_at (ex_code_row 1 ''ABC234'' False) of
                Some t \<Rightarrow> Some t
              | None \<Rightarrow> (case validations ''ABC234'' ex_codes ?calls of [] \<Rightarrow> None | t # _ \<Rightarrow> Some t))"
    and l: "sc_last_used_at r' =
             (if validations ''ABC234'' ex_codes ?calls = [] then sc_last_used_at (ex_code_row 1 ''ABC234'' False)
              else Some (last (validations ''ABC234'' ex_codes ?calls)))"
    by blast
  from u have u': "sc_use_count r' = 3" unfolding v r by simp
  from a have a': "sc_first_used_at r' = Some 11" unfolding v r by simp
  from l have l': "sc_last_used_at r' = Some 31" unfolding v r by simp
  show ?thesis unfolding v f using u' a' l' by simp
qed

text \<open>
  Claim C10. A code that exists (its row holds six characters, as every issued code
  does), is not revoked and is not expired, validated while no \<open>vimeo_passwords\<close> row
  is active and the store answers both queries, is answered 503, and the whole store,
  the row of the code with it, is what it was: \<open>use_count\<close>, \<open>first_used_at\<close> and
  \<open>last_used_at\<close> keep their values.
\<close>

theorem verify_stream_code_no_active_stream:
  assumes "\<not> vc_fails E Vc_lookup" "\<not> vc_fails E Vc_active"
    and "select_code (toUpperCase code) D = a # rest" "length (sc_code a) = 6"
    and "\<not> sc_revoked a" "\<not> vc_now E > sc_expires_at a"
    and "filter vp_active (vimeo_passwords D) = []"
  shows "verify_stream_code E D code = (Vc_no_active_stream, D) \<and>
         vc_status (fst (verify_stream_code E D code)) = 503 \<and>
         stream_access_codes (snd (verify_stream_code E D code)) = stream_access_codes D"
proof -
  from assms(3) have "a \<in> set (select_code (toUpperCase code) D)" by simp
  then have "sc_code a = toUpperCase code" by (simp add: select_code_def)
  with assms(4) have len: "length code = 6" by (simp add: toUpperCase_def)
  from assms(7) have "active_password D = None" by (simp add: active_password_def)
  with assms len show ?thesis
    by (auto simp: verify_stream_code_def Let_def)
qed

theorem verify_stream_code_no_active_stream_witness:
  "verify_stream_code (ex_vc_env 50 51) (ex_codes\<lparr>vimeo_passwords := []\<rparr>) ''abc234''
     = (Vc_no_active_stream, ex_codes\<lparr>vimeo_passwords := []\<rparr>)"
proof -
  have "select_code (toUpperCase ''abc234'') (ex_codes\<lparr>vimeo_passwords := []\<rparr>)
      = ex_code_row 1 ''ABC234'' False # []"
    by code_simp
  from verify_stream_code_no_active_stream [OF _ _ this, of "ex_vc_env 50 51"]
  show ?thesis by (simp add: ex_vc_env_def ex_code_row_def)
qed

section \<open>Properties of the absentee check-in\<close>

lemma access_code_chars_31:
  "length access_code_chars = 31" "distinct access_code_chars"
  "set access_code_chars \<inter> set ''0OI1L'' = {}"
  by (simp_all add: access_code_chars_def)

lemma generateAccessCode_chars:
  assumes "\<forall>i<6. draw i < length access_code_chars"
  shows "generateAccessCode draw = map (\<lambda>i. access_code_chars ! draw i) [0..<6]"
proof -
  have "generateAccessCode draw = concat (map (\<lambda>i. [access_code_chars ! draw i]) [0..<6])"
    unfolding generateAccessCode_def using assms
    by (intro arg_cong [where f = concat] map_cong refl) (simp add: charAt_def)
  then show ?thesis by (simp only: concat_map_singleton)
qed

lemma generateAccessCode_shape:
  assumes "\<forall>i<6. draw i < length access_code_chars"
  shows "length (generateAccessCode draw) = 6 \<and> set (generateAccessCode draw) \<subseteq> set access_code_chars"
  using assms by (auto simp: generateAccessCode_chars simp del: upt.simps)

text \<open>The turns of the loop that end in a unique violation leave the store alone.\<close>

lemma issue_access_code_skip:
  assumes "a \<le> j" "j \<le> 10"
    and "\<forall>k. a \<le> k \<and> k < j \<longrightarrow>
      insert_access_code E k (generateAccessCode (ci_randomInt E k)) name phone cid D = Inl Unique_violation"
  shows "issue_access_code E name phone cid a D = issue_access_code E name phone cid j D"
  using assms
proof (induction j)
  case 0
  then show ?case by simp
next
  case (Suc j)
  show ?case
  proof (cases "a = Suc j")
    case True
    then show ?thesis by simp
  next
    case False
    with Suc.prems have "a \<le> j" "j \<le> 10" "j < 10" by simp_all
    moreover from Suc.prems(3) have "\<forall>k. a \<le> k \<and> k < j \<longrightarrow>
      insert_access_code E k (generateAccessCode (ci_randomInt E k)) name phone cid D = Inl Unique_violation"
      by simp
    ultimately have "issue_access_code E name phone cid a D = issue_access_code E name phone cid j D"
      using Suc.IH by blast
    also from Suc.prems(3) \<open>a \<le> j\<close>
    have "insert_access_code E j (generateAccessCode (ci_randomInt E j)) name phone cid D = Inl Unique_violation"
      by simp
    with \<open>j < 10\<close> have "issue_access_code E name phone cid j D = issue_access_code E name phone cid (Suc j) D"
      by (subst issue_access_code.simps) (simp add: Let_def)
    finally show ?thesis .
  qed
qed

lemma issue_access_code_exhausted:
  "issue_access_code E name phone cid 10 D = Inr (None, D)"
  by (subst issue_access_code.simps) simp

text \<open>How the handler reports a loop that issued no code.\<close>

lemma send_stream_link_unable:
  assumes "\<not> ci_fails E Ci_active" "active_password D \<noteq> None" "ci_twilio E"
    and "issue_access_code E name phone cid 0 D = Inr (None, D')"
  shows "send_stream_link E name phone cid D = (False, Some Unable_to_generate_access_code, D')"
  using assms by (simp add: send_stream_link_def)

lemma send_stream_link_thrown:
  assumes "\<not> ci_fails E Ci_active" "active_password D \<noteq> None" "ci_twilio E"
    and "issue_access_code E name phone cid 0 D = Inl e"
  shows "send_stream_link E name phone cid D = (False, Some (Raised_by_store e), D)"
  using assms by (simp add: send_stream_link_def)

text \<open>
  Claim C6, amended. The alphabet of access codes has 31 symbols, all different, and
  none of \<open>0\<close>, \<open>O\<close>, \<open>I\<close>, \<open>1\<close>, \<open>L\<close>. With \<open>crypto.randomInt(31)\<close> returning
  numbers below 31, every generated code has six characters of the alphabet. The loop
  tries the inserts of freshly generated codes in turn: when the first ten all raise
  the unique violation, no code is issued and the handler reports \<open>Unable to generate
  access code\<close>; when the turns before the \<open>j\<close>-th raise it and the \<open>j\<close>-th insert goes
  through, its code is the result; and when the \<open>j\<close>-th raises another error, that error
  is thrown on and no further code is tried.
\<close>

theorem issue_access_code_retry:
  assumes draws: "\<forall>k<10. \<forall>i<6. ci_randomInt E k i < length access_code_chars"
  shows "(length access_code_chars = 31 \<and> distinct access_code_chars \<and>
          set access_code_chars \<inter> set ''0OI1L'' = {})
       \<and> (\<forall>k<10. length (generateAccessCode (ci_randomInt E k)) = 6 \<and>
                  set (generateAccessCode (ci_randomInt E k)) \<subseteq> set access_code_chars)
       \<and> ((\<forall>k<10. insert_access_code E k (generateAccessCode (ci_randomInt E k)) name phone cid D
                    = Inl Unique_violation) \<longrightarrow>
            issue_access_code E name phone cid 0 D = Inr (None, D))
       \<and> (\<forall>j<10. \<forall>D'.
            (\<forall>k<j. insert_access_code E k (generateAccessCode (ci_randomInt E k)) name phone cid D
                    = Inl Unique_violation) \<and>
            insert_access_code E j (generateAccessCode (ci_randomInt E j)) name phone cid D = Inr D' \<longrightarrow>
            issue_access_code E name phone cid 0 D
              = Inr (Some (generateAccessCode (ci_randomInt E j)), D'))
       \<and> (\<forall>j<10. \<forall>e.
            (\<forall>k<j. insert_access_code E k (generateAccessCode (ci_randomInt E k)) name phone cid D
                    = Inl Unique_violation) \<and>
            insert_access_code E j (generateAccessCode (ci_randomInt E j)) name phone cid D = Inl e \<and>
            e \<noteq> Unique_violation \<longrightarrow>
            issue_access_code E name phone cid 0 D = Inl e)
       \<and> ((\<forall>k<10. insert_access_code E k (generateAccessCode (ci_randomInt E k)) name phone cid D
                    = Inl Unique_violation) \<and>
            \<not> ci_fails E Ci_active \<and> active_password D \<noteq> None \<and> ci_twilio E \<longrightarrow>
            send_stream_link E name phone cid D = (False, Some Unable_to_generate_access_code, D))"
proof -
  let ?attempt = "\<lambda>k. insert_access_code E k (generateAccessCode (ci_randomInt E k)) name phone cid D"
  have 1: "length access_code_chars = 31 \<and> distinct access_code_chars \<and>
         set access_code_chars \<inter> set ''0OI1L'' = {}"
    using access_code_chars_31 by simp
  have 2: "\<forall>k<10. length (generateAccessCode (ci_randomInt E k)) = 6 \<and>
                  set (generateAccessCode (ci_randomInt E k)) \<subseteq> set access_code_chars"
    using draws generateAccessCode_shape by blast
  have 3: "(\<forall>k<10. ?attempt k = Inl Unique_violation) \<longrightarrow>
           issue_access_code E name phone cid 0 D = Inr (None, D)"
    using issue_access_code_skip [of 0 10 E name phone cid D] issue_access_code_exhausted
    by simp
  have 4: "\<forall>j<10. \<forall>D'. (\<forall>k<j. ?attempt k = Inl Unique_violation) \<and> ?attempt j = Inr D' \<longrightarrow>
           issue_access_code E name phone cid 0 D
             = Inr (Some (generateAccessCode (ci_randomInt E j)), D')"
  proof (intro allI impI)
    fix j D' assume j: "j < 10"
      and a: "(\<forall>k<j. ?attempt k = Inl Unique_violation) \<and> ?attempt j = Inr D'"
    then have "issue_access_code E name phone cid 0 D = issue_access_code E name phone cid j D"
      using issue_access_code_skip [of 0 j E name phone cid D] by simp
    also have "\<dots> = Inr (Some (generateAccessCode (ci_randomInt E j)), D')"
      using j a by (subst issue_access_code.simps) (simp add: Let_def)
    finally show "issue_access_code E name phone cid 0 D
        = Inr (Some (generateAccessCode (ci_randomInt E j)), D')" .
  qed
  have 5: "\<forall>j<10. \<forall>e. (\<forall>k<j. ?attempt k = Inl Unique_violation) \<and> ?attempt j = Inl e \<and>
           e \<noteq> Unique_violation \<longrightarrow>
           issue_access_code E name phone cid 0 D = Inl e"
  proof (intro allI impI)
    fix j e assume j: "j < 10"
      and a: "(\<forall>k<j. ?attempt k = Inl Unique_violation) \<and> ?attempt j = Inl e \<and>
           e \<noteq> Unique_violation"
    then have "issue_access_code E name phone cid 0 D = issue_access_code E name phone cid j D"
      using issue_access_code_skip [of 0 j E name phone cid D] by simp
    also have "\<dots> = Inl e"
      using j a by (subst issue_access_code.simps) (simp add: Let_def)
    finally show "issue_access_code E name phone cid 0 D = Inl e" .
  qed
  have 6: "(\<forall>k<10. ?attempt k = Inl Unique_violation) \<and>
            \<not> ci_fails E Ci_active \<and> active_password D \<noteq> None \<and> ci_twilio E \<longrightarrow>
            send_stream_link E name phone cid D = (False, Some Unable_to_generate_access_code, D)"
    using 3 send_stream_link_unable by blast
  from 1 2 3 4 5 6 show ?thesis by blast
qed

theorem issue_access_code_retry_witness:
  "generateAccessCode (\<lambda>i. if i < 3 then i else 20 + i) = ''ABC234'' \<and>
   issue_access_code (ex_ci_env (\<lambda>k i. if i < 3 then i else 20 + i) []) ''Ann Lee'' ''5559876543'' 1 0
     ex_codes = Inr (None, ex_codes) \<and>
   issue_access_code (ex_ci_env (\<lambda>k i. if i < 3 then i else 20 + i) [Ci_insert_code 0]) ''Ann Lee''
     ''5559876543'' 1 0 ex_codes = Inl Other_error"
proof -
  let ?draw = "\<lambda>(k::nat) i::nat. if i < 3 then i else 20 + i"
  have g: "generateAccessCode (\<lambda>i. if i < 3 then i else 20 + i) = ''ABC234''"
    by code_simp
  have draws: "\<forall>k<10. \<forall>i<6. ci_randomInt (ex_ci_env ?draw bad) k i < length access_code_chars" for bad
    by (simp add: ex_ci_env_def access_code_chars_def)
  have taken: "''ABC234'' \<in> sc_code ` set (stream_access_codes ex_codes)"
    by (simp add: ex_codes_def ex_code_row_def)
  have collide: "\<forall>k<10. insert_access_code (ex_ci_env ?draw []) k
      (generateAccessCode (ci_randomInt (ex_ci_env ?draw []) k)) ''Ann Lee'' ''5559876543'' 1 ex_codes
      = Inl Unique_violation"
    using g taken by (simp add: insert_access_code_def ex_ci_env_def)
  have other: "insert_access_code (ex_ci_env ?draw [Ci_insert_code 0]) 0
      (generateAccessCode (ci_randomInt (ex_ci_env ?draw [Ci_insert_code 0]) 0)) ''Ann Lee''
      ''5559876543'' 1 ex_codes = Inl Other_error"
    by (simp add: insert_access_code_def ex_ci_env_def)
  from issue_access_code_retry [OF draws, of "[]" "''Ann Lee''" "''5559876543''" 1 ex_codes] collide
  have a: "issue_access_code (ex_ci_env ?draw []) ''Ann Lee'' ''5559876543'' 1 0 ex_codes
      = Inr (None, ex_codes)"
    by blast
  from issue_access_code_retry [OF draws, of "[Ci_insert_code 0]" "''Ann Lee''" "''5559876543''" 1 ex_codes]
  have "\<forall>j<10. \<forall>e.
      (\<forall>k<j. insert_access_code (ex_ci_env ?draw [Ci_insert_code 0]) k
         (generateAccessCode (ci_randomInt (ex_ci_env ?draw [Ci_insert_code 0]) k)) ''Ann Lee''
         ''5559876543'' 1 ex_codes = Inl Unique_violation) \<and>
      insert_access_code (ex_ci_env ?draw [Ci_insert_code 0]) j
         (generateAccessCode (ci_randomInt (ex_ci_env ?draw [Ci_insert_code 0]) j)) ''Ann Lee''
         ''5559876543'' 1 ex_codes = Inl e \<and> e \<noteq> Unique_violation \<longrightarrow>
      issue_access_code (ex_ci_env ?draw [Ci_insert_code 0]) ''Ann Lee'' ''5559876543'' 1 0 ex_codes
        = Inl e"
    by blast
  from this [rule_format, of 0 Other_error] other
  have b: "issue_access_code (ex_ci_env ?draw [Ci_insert_code 0]) ''Ann Lee'' ''5559876543'' 1 0 ex_codes
      = Inl Other_error"
    by simp
  from g a b show ?thesis by simp
qed

theorem access_code_alphabet_size:
  "length access_code_chars = 31 \<and> card (set access_code_chars) = 31 \<and> length access_code_chars \<noteq> 32"
  by (simp add: access_code_chars_def)

lemma select_member_by_phone_empty:
  "select_member_by_phone p D = [] \<longleftrightarrow> \<not> (\<exists>m \<in> set (members D). phone_matches p m)"
  by (auto simp: select_member_by_phone_def filter_empty_conv)

text \<open>
  Claim C9, amended. A request with a name, a phone and one of the four reasons, whose
  phone, reduced to its last ten digits, matches the (equally reduced) phone of no
  member, is answered 403 \<open>notMember\<close> when the store answers the member query, and the
  store is as before. For every request at all, with the fields right or wrong, the
  check-in table grows only when a member matches.
\<close>

theorem submit_absence_members_only:
  "(trim (ci_name rq) \<noteq> [] \<and> trim (ci_phone rq) \<noteq> [] \<and> ci_reason rq \<in> set validReasons \<and>
    \<not> ci_fails E Ci_members \<and>
    \<not> (\<exists>m \<in> set (members D). phone_matches (slice_last 10 (digits_only (ci_phone rq))) m) \<longrightarrow>
      submit_absence E D rq = (Ci_not_member, D) \<and> ci_status (fst (submit_absence E D rq)) = 403)
   \<and> (length (absentee_checkins (snd (submit_absence E D rq))) \<noteq> length (absentee_checkins D) \<longrightarrow>
      (\<exists>m \<in> set (members D). phone_matches (slice_last 10 (digits_only (ci_phone rq))) m))
   \<and> (\<not> (\<exists>m \<in> set (members D). phone_matches (slice_last 10 (digits_only (ci_phone rq))) m) \<longrightarrow>
      snd (submit_absence E D rq) = D)"
proof -
  let ?p = "slice_last 10 (digits_only (ci_phone rq))"
  have none: "snd (submit_absence E D rq) = D" if "select_member_by_phone ?p D = []"
    using that by (simp add: submit_absence_def Let_def)
  have 1: "trim (ci_name rq) \<noteq> [] \<and> trim (ci_phone rq) \<noteq> [] \<and> ci_reason rq \<in> set validReasons \<and>
    \<not> ci_fails E Ci_members \<and> \<not> (\<exists>m \<in> set (members D). phone_matches ?p m) \<longrightarrow>
      submit_absence E D rq = (Ci_not_member, D) \<and> ci_status (fst (submit_absence E D rq)) = 403"
  proof
    assume a: "trim (ci_name rq) \<noteq> [] \<and> trim (ci_phone rq) \<noteq> [] \<and> ci_reason rq \<in> set validReasons \<and>
      \<not> ci_fails E Ci_members \<and> \<not> (\<exists>m \<in> set (members D). phone_matches ?p m)"
    then have "ci_name rq \<noteq> []" "ci_phone rq \<noteq> []" "ci_reason rq \<noteq> []"
      by (auto simp: trim_def validReasons_def)
    moreover from a have "select_member_by_phone ?p D = []"
      by (simp add: select_member_by_phone_empty)
    ultimately have "submit_absence E D rq = (Ci_not_member, D)"
      using a by (simp add: submit_absence_def Let_def)
    then show "submit_absence E D rq = (Ci_not_member, D) \<and> ci_status (fst (submit_absence E D rq)) = 403"
      by simp
  qed
  have 3: "\<not> (\<exists>m \<in> set (members D). phone_matches ?p m) \<longrightarrow> snd (submit_absence E D rq) = D"
    using none by (simp add: select_member_by_phone_empty)
  from 3 have 2: "length (absentee_checkins (snd (submit_absence E D rq))) \<noteq> length (absentee_checkins D) \<longrightarrow>
      (\<exists>m \<in> set (members D). phone_matches ?p m)"
    by auto
  from 1 2 3 show ?thesis by blast
qed

theorem submit_absence_members_only_witness:
  "submit_absence (ex_ci_env (\<lambda>k i. i) []) ex_codes (ex_ci_request ''Ann Lee'' ''555-123-4567'')
     = (Ci_not_member, ex_codes) \<and>
   ci_status (fst (submit_absence (ex_ci_env (\<lambda>k i. i) []) ex_codes
     (ex_ci_request ''Ann Lee'' ''555-123-4567''))) = 403 \<and>
   length (absentee_checkins (snd (submit_absence (ex_ci_env (\<lambda>k i. i) []) ex_codes
     (ex_ci_request ''Ann Lee'' ''555 987 6543'')))) = 1"
proof -
  have v: "trim (ci_name (ex_ci_request ''Ann Lee'' ''555-123-4567'')) \<noteq> []"
      "trim (ci_phone (ex_ci_request ''Ann Lee'' ''555-123-4567'')) \<noteq> []"
      "ci_reason (ex_ci_request ''Ann Lee'' ''555-123-4567'') \<in> set validReasons"
      "\<not> ci_fails (ex_ci_env (\<lambda>k i. i) []) Ci_members"
    by code_simp+
  have n: "\<not> (\<exists>m \<in> set (members ex_codes).
      phone_matches (slice_last 10 (digits_only (ci_phone (ex_ci_request ''Ann Lee'' ''555-123-4567'')))) m)"
    by code_simp
  have g: "length (absentee_checkins (snd (submit_absence (ex_ci_env (\<lambda>k i. i) []) ex_codes
     (ex_ci_request ''Ann Lee'' ''555 987 6543'')))) = 1"
    by code_simp
  from submit_absence_members_only [of "ex_ci_request ''Ann Lee'' ''555-123-4567''"
      "ex_ci_env (\<lambda>k i. i) []" ex_codes] v n g
  show ?thesis by blast
qed

theorem submit_absence_blank_name:
  "select_member_by_phone (slice_last 10 (digits_only ''555-123-4567'')) ex_codes = [] \<and>
   submit_absence (ex_ci_env (\<lambda>k i. i) []) ex_codes (ex_ci_request [] ''555-123-4567'')
     = (Ci_invalid ''Name is required'', ex_codes) \<and>
   ci_status (fst (submit_absence (ex_ci_env (\<lambda>k i. i) []) ex_codes
     (ex_ci_request [] ''555-123-4567''))) = 400"
  by code_simp

text \<open>
  A name or a phone of blanks only, the no-break space among them, is refused by the
  field check before the member lookup.
\<close>

lemma submit_absence_blank_fields:
  "trim [CHR 0xA0, CHR 0x20, CHR 0x09] = [] \<and>
   submit_absence (ex_ci_env (\<lambda>k i. i) []) ex_codes (ex_ci_request [CHR 0xA0] ''555-123-4567'')
     = (Ci_invalid ''Name is required'', ex_codes) \<and>
   submit_absence (ex_ci_env (\<lambda>k i. i) []) ex_codes (ex_ci_request ''Ann Lee'' [CHR 0xA0, CHR 0x20])
     = (Ci_invalid ''Phone number is required for receiving live stream link'', ex_codes)"
  by code_simp

section \<open>Properties of the password rotation\<close>

lemma filter_active_deactivated:
  "filter vp_active (map (\<lambda>r. if vp_active r then r\<lparr>vp_active := False\<rparr> else r) tbl) = []"
  by (induction tbl) auto

lemma active_after_rotation:
  "filter vp_active (vimeo_passwords (insert_password (new_password_row now vid pw url rt)
      (deactivate_passwords D))) = [new_password_row now vid pw url rt]"
  by (simp add: insert_password_def deactivate_passwords_def filter_active_deactivated
      new_password_row_def)

lemma passwords_after_rotation:
  "vimeo_passwords (insert_password r (deactivate_passwords D))
     = map (\<lambda>r. if vp_active r then r\<lparr>vp_active := False\<rparr> else r) (vimeo_passwords D) @ [r]"
  by (simp add: insert_password_def deactivate_passwords_def)

lemma vimeo_passwords_set_last_run [simp]:
  "vimeo_passwords (set_last_run now D) = vimeo_passwords D"
  by (simp add: set_last_run_def)

lemma change_password_completed:
  assumes "completed (fst (change_password E D rq))"
  shows "\<exists>vid url rt.
      change_password E D rq =
        (Rot_saved (new_password_row (rot_now E) vid
            (if rr_password rq \<noteq> [] then rr_password rq else generatePassword (rot_entropy E) 8) url rt)
          (rot_VIMEO_ACCESS_TOKEN E \<and> rot_push_ok E),
         insert_password (new_password_row (rot_now E) vid
            (if rr_password rq \<noteq> [] then rr_password rq else generatePassword (rot_entropy E) 8) url rt)
           (deactivate_passwords D))"
  using assms by (auto simp: change_password_def Let_def split: if_splits)

lemma scheduled_rotation_completed:
  assumes "completed (fst (scheduled_rotation E D))"
  shows "\<exists>vid url.
      scheduled_rotation E D =
        (Rot_rotated (rot_VIMEO_ACCESS_TOKEN E \<and> rot_push_ok E),
         set_last_run (rot_now E)
           (insert_password (new_password_row (rot_now E) vid (generatePassword (rot_entropy E) 8) url
              ''scheduled'') (deactivate_passwords D)))"
  using assms by (auto simp: scheduled_rotation_def Let_def split: if_splits)

lemma rotation_ignores_push:
  "snd (change_password (E\<lparr>rot_push_ok := b\<rparr>) D rq) = snd (change_password E D rq)"
  "completed (fst (change_password (E\<lparr>rot_push_ok := b\<rparr>) D rq))
     = completed (fst (change_password E D rq))"
  "snd (scheduled_rotation (E\<lparr>rot_push_ok := b\<rparr>) D) = snd (scheduled_rotation E D)"
  "completed (fst (scheduled_rotation (E\<lparr>rot_push_ok := b\<rparr>) D))
     = completed (fst (scheduled_rotation E D))"
  by (simp_all add: change_password_def scheduled_rotation_def Let_def cong: option.case_cong)

text \<open>When each of the two rotations completes.\<close>

lemma change_password_completes:
  "completed (fst (change_password E D rq)) \<longleftrightarrow>
     (rr_videoId rq \<noteq> [] \<or> rot_VIMEO_VIDEO_ID E \<noteq> []) \<and>
     \<not> rot_fails E Rot_deactivate \<and> \<not> rot_fails E Rot_insert"
  by (auto simp: change_password_def Let_def)

lemma scheduled_rotation_completes:
  "completed (fst (scheduled_rotation E D)) \<longleftrightarrow>
     \<not> rot_fails E Rot_schedule \<and> filter sch_enabled (password_rotation_schedule D) \<noteq> [] \<and>
     \<not> rot_fails E Rot_current \<and>
     (case active_password D of Some r \<Rightarrow> vp_video_id r | None \<Rightarrow> rot_VIMEO_VIDEO_ID E) \<noteq> [] \<and>
     \<not> rot_fails E Rot_deactivate \<and> \<not> rot_fails E Rot_insert \<and> \<not> rot_fails E Rot_last_run"
  by (auto simp: scheduled_rotation_def Let_def)

text \<open>
  Claim C7. A manual rotation (\<open>change_password\<close>) completes when a video id is known and
  the store runs its two statements; a scheduled rotation (\<open>scheduled_rotation\<close>)
  completes when the schedule is enabled, a video id is known and the store runs its
  five statements. A completed rotation of either kind leaves the password table as the
  old rows, every active one set to inactive, followed by one new row, which is active
  and holds the new password: the active rows after the rotation are that one row, the
  last of the table. Whether the request to the video provider succeeded changes
  neither the store after the call nor whether the rotation completes.
\<close>

theorem rotation_single_active:
  "(completed (fst (change_password E D rq)) \<longrightarrow>
      (\<exists>new. vimeo_passwords (snd (change_password E D rq))
                = map (\<lambda>r. if vp_active r then r\<lparr>vp_active := False\<rparr> else r) (vimeo_passwords D) @ [new] \<and>
              vp_active new \<and>
              vp_password new =
                (if rr_password rq \<noteq> [] then rr_password rq else generatePassword (rot_entropy E) 8) \<and>
              filter vp_active (vimeo_passwords (snd (change_password E D rq))) = [new] \<and>
              last (vimeo_passwords (snd (change_password E D rq))) = new))
   \<and> (completed (fst (scheduled_rotation E D)) \<longrightarrow>
      (\<exists>new. vimeo_passwords (snd (scheduled_rotation E D))
                = map (\<lambda>r. if vp_active r then r\<lparr>vp_active := False\<rparr> else r) (vimeo_passwords D) @ [new] \<and>
              vp_active new \<and>
              vp_password new = generatePassword (rot_entropy E) 8 \<and>
              filter vp_active (vimeo_passwords (snd (scheduled_rotation E D))) = [new] \<and>
              last (vimeo_passwords (snd (scheduled_rotation E D))) = new))
   \<and> snd (change_password (E\<lparr>rot_push_ok := b\<rparr>) D rq) = snd (change_password E D rq)
   \<and> completed (fst (change_password (E\<lparr>rot_push_ok := b\<rparr>) D rq))
       = completed (fst (change_password E D rq))
   \<and> snd (scheduled_rotation (E\<lparr>rot_push_ok := b\<rparr>) D) = snd (scheduled_rotation E D)
   \<and> completed (fst (scheduled_rotation (E\<lparr>rot_push_ok := b\<rparr>) D))
       = completed (fst (scheduled_rotation E D))
   \<and> (completed (fst (change_password E D rq)) \<longleftrightarrow>
        (rr_videoId rq \<noteq> [] \<or> rot_VIMEO_VIDEO_ID E \<noteq> []) \<and>
        \<not> rot_fails E Rot_deactivate \<and> \<not> rot_fails E Rot_insert)
   \<and> (completed (fst (scheduled_rotation E D)) \<longleftrightarrow>
        \<not> rot_fails E Rot_schedule \<and> filter sch_enabled (password_rotation_schedule D) \<noteq> [] \<and>
        \<not> rot_fails E Rot_current \<and>
        (case active_password D of Some r \<Rightarrow> vp_video_id r | None \<Rightarrow> rot_VIMEO_VIDEO_ID E) \<noteq> [] \<and>
        \<not> rot_fails E Rot_deactivate \<and> \<not> rot_fails E Rot_insert \<and> \<not> rot_fails E Rot_last_run)"
proof -
  have 1: "completed (fst (change_password E D rq)) \<longrightarrow>
      (\<exists>new. vimeo_passwords (snd (change_password E D rq))
                = map (\<lambda>r. if vp_active r then r\<lparr>vp_active := False\<rparr> else r) (vimeo_passwords D) @ [new] \<and>
              vp_active new \<and>
              vp_password new =
                (if rr_password rq \<noteq> [] then rr_password rq else generatePassword (rot_entropy E) 8) \<and>
              filter vp_active (vimeo_passwords (snd (change_password E D rq))) = [new] \<and>
              last (vimeo_passwords (snd (change_password E D rq))) = new)"
  proof
    assume "completed (fst (change_password E D rq))"
    from change_password_completed [OF this] obtain vid url rt where
      eq: "snd (change_password E D rq) =
         insert_password (new_password_row (rot_now E) vid
            (if rr_password rq \<noteq> [] then rr_password rq else generatePassword (rot_entropy E) 8) url rt)
           (deactivate_passwords D)"
      by auto
    show "\<exists>new. vimeo_passwords (snd (change_password E D rq))
                = map (\<lambda>r. if vp_active r then r\<lparr>vp_active := False\<rparr> else r) (vimeo_passwords D) @ [new] \<and>
              vp_active new \<and>
              vp_password new =
                (if rr_password rq \<noteq> [] then rr_password rq else generatePassword (rot_entropy E) 8) \<and>
              filter vp_active (vimeo_passwords (snd (change_password E D rq))) = [new] \<and>
              last (vimeo_passwords (snd (change_password E D rq))) = new"
      unfolding eq
      using active_after_rotation [of "rot_now E" vid
            "if rr_password rq \<noteq> [] then rr_password rq else generatePassword (rot_entropy E) 8" url rt D]
      by (intro exI [of _ "new_password_row (rot_now E) vid
            (if rr_password rq \<noteq> [] then rr_password rq else generatePassword (rot_entropy E) 8) url rt"])
         (simp add: passwords_after_rotation new_password_row_def)
  qed
  have 2: "completed (fst (scheduled_rotation E D)) \<longrightarrow>
      (\<exists>new. vimeo_passwords (snd (scheduled_rotation E D))
                = map (\<lambda>r. if vp_active r then r\<lparr>vp_active := False\<rparr> else r) (vimeo_passwords D) @ [new] \<and>
              vp_active new \<and>
              vp_password new = generatePassword (rot_entropy E) 8 \<and>
              filter vp_active (vimeo_passwords (snd (scheduled_rotation E D))) = [new] \<and>
              last (vimeo_passwords (snd (scheduled_rotation E D))) = new)"
  proof
    assume "completed (fst (scheduled_rotation E D))"
    from scheduled_rotation_completed [OF this] obtain vid url where
      eq: "snd (scheduled_rotation E D) =
         set_last_run (rot_now E)
           (insert_password (new_password_row (rot_now E) vid (generatePassword (rot_entropy E) 8) url
              ''scheduled'') (deactivate_passwords D))"
      by auto
    show "\<exists>new. vimeo_passwords (snd (scheduled_rotation E D))
                = map (\<lambda>r. if vp_active r then r\<lparr>vp_active := False\<rparr> else r) (vimeo_passwords D) @ [new] \<and>
              vp_active new \<and>
              vp_password new = generatePassword (rot_entropy E) 8 \<and>
              filter vp_active (vimeo_passwords (snd (scheduled_rotation E D))) = [new] \<and>
              last (vimeo_passwords (snd (scheduled_rotation E D))) = new"
      unfolding eq
      using active_after_rotation [of "rot_now E" vid "generatePassword (rot_entropy E) 8" url
          "''scheduled''" D]
      by (intro exI [of _ "new_password_row (rot_now E) vid (generatePassword (rot_entropy E) 8) url
              ''scheduled''"])
         (simp add: passwords_after_rotation new_password_row_def)
  qed
  have 3: "snd (change_password (E\<lparr>rot_push_ok := b\<rparr>) D rq) = snd (change_password E D rq)
      \<and> completed (fst (change_password (E\<lparr>rot_push_ok := b\<rparr>) D rq))
          = completed (fst (change_password E D rq))
      \<and> snd (scheduled_rotation (E\<lparr>rot_push_ok := b\<rparr>) D) = snd (scheduled_rotation E D)
      \<and> completed (fst (scheduled_rotation (E\<lparr>rot_push_ok := b\<rparr>) D))
          = completed (fst (scheduled_rotation E D))"
    by (simp only: rotation_ignores_push)
  note 4 = change_password_completes [of E D rq]
  note 5 = scheduled_rotation_completes [of E D]
  from 1 2 3 4 5 show ?thesis by blast
qed

theorem rotation_single_active_witness:
  "completed (fst (change_password (ex_rot_env False) ex_codes ex_rot_request)) \<and>
   map vp_password (filter vp_active (vimeo_passwords
     (snd (change_password (ex_rot_env False) ex_codes ex_rot_request)))) = [''nTUAqVBr''] \<and>
   map vp_active (vimeo_passwords (snd (change_password (ex_rot_env False) ex_codes ex_rot_request)))
     = [False, True] \<and>
   snd (change_password (ex_rot_env True) ex_codes ex_rot_request)
     = snd (change_password (ex_rot_env False) ex_codes ex_rot_request) \<and>
   completed (fst (scheduled_rotation (ex_rot_env False) ex_scheduled)) \<and>
   map vp_password (filter vp_active (vimeo_passwords
     (snd (scheduled_rotation (ex_rot_env False) ex_scheduled)))) = [''nTUAqVBr''] \<and>
   map vp_active (vimeo_passwords (snd (scheduled_rotation (ex_rot_env False) ex_scheduled)))
     = [False, True] \<and>
   map vp_rotation_type (vimeo_passwords (snd (scheduled_rotation (ex_rot_env False) ex_scheduled)))
     = [''manual'', ''scheduled''] \<and>
   snd (scheduled_rotation (ex_rot_env True) ex_scheduled)
     = snd (scheduled_rotation (ex_rot_env False) ex_scheduled)"
proof -
  have p: "generatePassword (rot_entropy (ex_rot_env False)) 8 = ''nTUAqVBr''"
    by code_simp
  have e: "(ex_rot_env False)\<lparr>rot_push_ok := True\<rparr> = ex_rot_env True"
    by (simp add: ex_rot_env_def)
  have rt: "map vp_rotation_type (vimeo_passwords (snd (scheduled_rotation (ex_rot_env False) ex_scheduled)))
     = [''manual'', ''scheduled'']"
    by code_simp
  note rot = rotation_single_active [of "ex_rot_env False" _ ex_rot_request True]
  \<comment> \<open>the manual rotation\<close>
  have cm: "completed (fst (change_password (ex_rot_env False) ex_codes ex_rot_request))"
    using rot [of ex_codes] by (simp add: ex_rot_env_def)
  with rot [of ex_codes] obtain new where
    n: "vimeo_passwords (snd (change_password (ex_rot_env False) ex_codes ex_rot_request))
        = map (\<lambda>r. if vp_active r then r\<lparr>vp_active := False\<rparr> else r) (vimeo_passwords ex_codes) @ [new]"
      "vp_active new"
      "vp_password new = (if rr_password ex_rot_request \<noteq> [] then rr_password ex_rot_request
         else generatePassword (rot_entropy (ex_rot_env False)) 8)"
      "filter vp_active (vimeo_passwords (snd (change_password (ex_rot_env False) ex_codes ex_rot_request)))
        = [new]"
    and s: "snd (change_password ((ex_rot_env False)\<lparr>rot_push_ok := True\<rparr>) ex_codes ex_rot_request)
        = snd (change_password (ex_rot_env False) ex_codes ex_rot_request)"
    by blast
  from n(3) p have pw: "vp_password new = ''nTUAqVBr''"
    by (simp add: ex_rot_request_def)
  have am: "map vp_active (vimeo_passwords (snd (change_password (ex_rot_env False) ex_codes ex_rot_request)))
     = [False, True]"
    unfolding n(1) using n(2) by (simp add: ex_codes_def)
  \<comment> \<open>the scheduled rotation\<close>
  have en: "filter sch_enabled (password_rotation_schedule ex_scheduled) \<noteq> []"
    by (simp add: ex_scheduled_def)
  have vid: "(case active_password ex_scheduled of Some r \<Rightarrow> vp_video_id r
      | None \<Rightarrow> rot_VIMEO_VIDEO_ID (ex_rot_env False)) \<noteq> []"
    by code_simp
  have cs: "completed (fst (scheduled_rotation (ex_rot_env False) ex_scheduled))"
    using rot [of ex_scheduled] en vid by (simp add: ex_rot_env_def)
  with rot [of ex_scheduled] obtain new' where
    n': "vimeo_passwords (snd (scheduled_rotation (ex_rot_env False) ex_scheduled))
        = map (\<lambda>r. if vp_active r then r\<lparr>vp_active := False\<rparr> else r) (vimeo_passwords ex_scheduled) @ [new']"
      "vp_active new'"
      "vp_password new' = generatePassword (rot_entropy (ex_rot_env False)) 8"
      "filter vp_active (vimeo_passwords (snd (scheduled_rotation (ex_rot_env False) ex_scheduled)))
        = [new']"
    and s': "snd (scheduled_rotation ((ex_rot_env False)\<lparr>rot_push_ok := True\<rparr>) ex_scheduled)
        = snd (scheduled_rotation (ex_rot_env False) ex_scheduled)"
    by blast
  from n'(3) p have pw': "vp_password new' = ''nTUAqVBr''" by simp
  have as: "map vp_active (vimeo_passwords (snd (scheduled_rotation (ex_rot_env False) ex_scheduled)))
     = [False, True]"
    unfolding n'(1) using n'(2) by (simp add: ex_scheduled_def ex_codes_def)
  from cm n(4) pw am s [unfolded e] cs n'(4) pw' as rt s' [unfolded e] show ?thesis by simp
qed

lemma password_chars_55:
  "length password_chars = 55" "distinct password_chars"
  by (simp_all add: password_chars_def)

text \<open>
  Claim C8, amended. The alphabet of generated passwords has 55 symbols, all different.
  A generated password has exactly 8 characters; its \<open>i\<close>-th character is the symbol at
  position (\<open>i\<close>-th random byte modulo 55) of the alphabet, so each character is drawn
  from the alphabet by a byte of its own. A manual rotation without a password in the
  request, and every scheduled rotation, saves this generated password.
\<close>

theorem generatePassword_shape:
  "length password_chars = 55 \<and> distinct password_chars
   \<and> length (generatePassword entropy 8) = 8
   \<and> (\<forall>i<8. generatePassword entropy 8 ! i = password_chars ! (unat (entropy i) mod 55))
   \<and> set (generatePassword entropy 8) \<subseteq> set password_chars
   \<and> (\<forall>saved u D'. rr_password rq = [] \<and> change_password E D rq = (Rot_saved saved u, D') \<longrightarrow>
        vp_password saved = generatePassword (rot_entropy E) 8)"
proof -
  have len: "length (generatePassword entropy 8) = 8"
    by (simp add: generatePassword_def Let_def)
  have nth: "\<forall>i<8. generatePassword entropy 8 ! i = password_chars ! (unat (entropy i) mod 55)"
    by (simp add: generatePassword_def Let_def randomBytes_def password_chars_55 del: upt.simps)
  have "\<forall>i<8. generatePassword entropy 8 ! i \<in> set password_chars"
    using nth by (simp add: password_chars_55)
  with len have sub: "set (generatePassword entropy 8) \<subseteq> set password_chars"
    by (auto simp: in_set_conv_nth)
  have saved: "\<forall>saved u D'. rr_password rq = [] \<and> change_password E D rq = (Rot_saved saved u, D') \<longrightarrow>
        vp_password saved = generatePassword (rot_entropy E) 8"
    by (auto simp: change_password_def Let_def new_password_row_def split: if_splits)
  from password_chars_55 len nth sub saved show ?thesis by blast
qed

theorem generatePassword_shape_witness:
  "generatePassword (\<lambda>i. word_of_nat (37 * i + 200)) 8 = ''nTUAqVBr'' \<and>
   length (generatePassword (\<lambda>i. word_of_nat (37 * i + 200)) 8) = 8 \<and>
   set (generatePassword (\<lambda>i. word_of_nat (37 * i + 200)) 8) \<subseteq> set password_chars"
proof -
  have v: "generatePassword (\<lambda>i. word_of_nat (37 * i + 200)) 8 = ''nTUAqVBr''"
    by code_simp
  from generatePassword_shape [of "\<lambda>i. word_of_nat (37 * i + 200)"]
  have "length (generatePassword (\<lambda>i. word_of_nat (37 * i + 200)) 8) = 8"
    and "set (generatePassword (\<lambda>i. word_of_nat (37 * i + 200)) 8) \<subseteq> set password_chars"
    by blast+
  with v show ?thesis by blast
qed

theorem password_alphabet_size:
  "length password_chars = 55 \<and> card (set password_chars) = 55 \<and> length password_chars \<noteq> 58"
  by (simp add: password_chars_def)

section \<open>Properties of the member absence report\<close>

lemma service_key_inj:
  assumes inj: "inj toISO" and bar: "\<forall>d. CHR ''|'' \<notin> set (toISO d)"
    and eq: "service_key toISO s = service_key toISO t"
  shows "s = t"
proof -
  have split: "takeWhile (\<lambda>c. c \<noteq> CHR ''|'') (toISO d @ ''|'' @ x) = toISO d"
      "dropWhile (\<lambda>c. c \<noteq> CHR ''|'') (toISO d @ ''|'' @ x) = ''|'' @ x" for d x
  proof -
    have ok: "c \<noteq> CHR ''|''" if "c \<in> set (toISO d)" for c
      using bar that by auto
    show "takeWhile (\<lambda>c. c \<noteq> CHR ''|'') (toISO d @ ''|'' @ x) = toISO d"
      by (subst takeWhile_append2) (simp_all add: ok)
    show "dropWhile (\<lambda>c. c \<noteq> CHR ''|'') (toISO d @ ''|'' @ x) = ''|'' @ x"
      by (subst dropWhile_append2) (simp_all add: ok)
  qed
  from eq have "takeWhile (\<lambda>c. c \<noteq> CHR ''|'') (toISO (fst s) @ ''|'' @ snd s)
      = takeWhile (\<lambda>c. c \<noteq> CHR ''|'') (toISO (fst t) @ ''|'' @ snd t)"
    and "dropWhile (\<lambda>c. c \<noteq> CHR ''|'') (toISO (fst s) @ ''|'' @ snd s)
      = dropWhile (\<lambda>c. c \<noteq> CHR ''|'') (toISO (fst t) @ ''|'' @ snd t)"
    by (simp_all add: service_key_def)
  then have "toISO (fst s) = toISO (fst t)" "snd s = snd t"
    unfolding split by simp_all
  with inj show ?thesis
    by (simp add: inj_eq prod_eq_iff)
qed

lemma select_services_set:
  "set (select_services lo hi D)
     = {(att_date r, att_service_type r) | r. r \<in> set (attendance D) \<and> lo \<le> att_date r \<and> att_date r \<le> hi}"
  by (auto simp: select_services_def)

lemma select_services_distinct: "distinct (select_services lo hi D)"
  by (simp add: select_services_def)

lemma select_attended_set:
  "set (select_attended m lo hi D)
     = {(att_date r, att_service_type r) | r. r \<in> set (attendance D) \<and> att_member_id r = m \<and>
          lo \<le> att_date r \<and> att_date r \<le> hi \<and> att_present r}"
  by (auto simp: select_attended_def)

lemma select_attended_occurred: "set (select_attended m lo hi D) \<subseteq> set (select_services lo hi D)"
  by (auto simp: select_attended_set select_services_set)

text \<open>
  The absences are the services that occurred without the services the member attended,
  and the three counts of the summary add up.
\<close>

lemma member_absences_partition:
  fixes toISO :: "date \<Rightarrow> string" and m :: string and lo hi :: date and D :: db
  assumes inj: "inj toISO" and bar: "\<forall>d. CHR ''|'' \<notin> set (toISO d)"
  defines "absences \<equiv> filter (\<lambda>service. service_key toISO service \<notin>
      set (map (service_key toISO) (select_attended m lo hi D))) (select_services lo hi D)"
  shows "set absences = set (select_services lo hi D) - set (select_attended m lo hi D)"
    and "length (select_services lo hi D) - length absences = card (set (select_attended m lo hi D))"
    and "(length (select_services lo hi D) - length absences) + length absences
          = length (select_services lo hi D)"
proof -
  have key: "service_key toISO s \<in> service_key toISO ` A \<longleftrightarrow> s \<in> A" for s A
    using service_key_inj [OF inj bar] by blast
  show abs: "set absences = set (select_services lo hi D) - set (select_attended m lo hi D)"
    by (auto simp: absences_def key)
  have "distinct absences"
    by (simp add: absences_def select_services_distinct)
  then have "length absences = card (set (select_services lo hi D) - set (select_attended m lo hi D))"
    by (simp add: distinct_card abs [symmetric])
  also have "\<dots> = card (set (select_services lo hi D)) - card (set (select_attended m lo hi D))"
    using select_attended_occurred by (simp add: card_Diff_subset)
  finally have len: "length absences
      = length (select_services lo hi D) - card (set (select_attended m lo hi D))"
    by (simp add: distinct_card select_services_distinct)
  have "card (set (select_attended m lo hi D)) \<le> length (select_services lo hi D)"
    using card_mono [OF finite_set select_attended_occurred [of m lo hi D]]
    by (simp add: distinct_card select_services_distinct)
  with len show "length (select_services lo hi D) - length absences
      = card (set (select_attended m lo hi D))"
    by simp
  show "(length (select_services lo hi D) - length absences) + length absences
          = length (select_services lo hi D)"
    by (simp add: absences_def)
qed

lemma member_absence_report_counts:
  assumes inj: "inj (mr_iso E)" and bar: "\<forall>d. CHR ''|'' \<notin> set (mr_iso E d)"
    and rep: "member_absence_report E D rq = Mr_report sm tallies details"
  shows "\<exists>lo hi. mr_date_in E (mr_fromDate rq) = Some lo \<and> mr_date_in E (mr_toDate rq) = Some hi \<and>
           totalServicesInPeriod sm = card (set (select_services lo hi D)) \<and>
           totalAttended sm = card (set (select_attended (mr_memberId rq) lo hi D)) \<and>
           totalAbsences sm
             = card (set (select_services lo hi D) - set (select_attended (mr_memberId rq) lo hi D)) \<and>
           totalAttended sm + totalAbsences sm = totalServicesInPeriod sm \<and>
           rate sm = attendanceRate (totalAttended sm) (totalServicesInPeriod sm)"
proof -
  from rep obtain lo hi where lo: "mr_date_in E (mr_fromDate rq) = Some lo"
    and hi: "mr_date_in E (mr_toDate rq) = Some hi"
    by (auto simp: member_absence_report_def Let_def split: if_splits list.splits option.splits)
  let ?abs = "filter (\<lambda>service. service_key (mr_iso E) service \<notin>
      set (map (service_key (mr_iso E)) (select_attended (mr_memberId rq) lo hi D))) (select_services lo hi D)"
  from rep lo hi have sm:
    "totalServicesInPeriod sm = length (select_services lo hi D)"
    "totalAbsences sm = length ?abs"
    "totalAttended sm = length (select_services lo hi D) - length ?abs"
    "rate sm = attendanceRate (totalAttended sm) (totalServicesInPeriod sm)"
    by (auto simp: member_absence_report_def Let_def split: if_splits list.splits)
  note part = member_absences_partition [OF inj bar, where m = "mr_memberId rq" and lo = lo
      and hi = hi and D = D]
  have "distinct ?abs" by (simp add: select_services_distinct)
  then have "length ?abs = card (set (select_services lo hi D) - set (select_attended (mr_memberId rq) lo hi D))"
    using part(1) by (simp add: distinct_card [symmetric])
  with sm part lo hi show ?thesis
    by (simp add: distinct_card select_services_distinct)
qed

text \<open>
  Claim C2. The set partition holds (\<open>member_absence_report_counts\<close> above), but the
  reported rate is not always the rounded percentage. Twenty Sundays with two services
  each, the member present at 23 of the 40 services: the handler computes
  \<open>(23 / 40) * 100\<close> in double precision, which is \<open>57.49999999999999\<close>, and reports
  57, while 100 times 23 over 40 is 57.5 and rounds to 58.
\<close>

theorem member_absence_report_rate:
  "report_summary (member_absence_report ex_mr_env (ex_store\<lparr>attendance := ex_attendance\<rparr>)
      ex_mr_request)
     = Some \<lparr>totalServicesInPeriod = 40, totalAttended = 23, totalAbsences = 17, rate = 57,
             absencesWithSubmission = 0, absencesWithoutSubmission = 17\<rparr> \<and>
   js_times (js_divide 23 40) 100 = 8092405580431359 / 140737488355328 \<and>
   attendanceRate 23 40 = 57 \<and>
   rate_by_spec 23 40 = 58"
  by code_simp

end
